theory Spec2Isabelle
  imports
    Main
    "HOL-Library.Char_ord"
    "HOL-Library.List_Lexorder"
    "HOL-Library.Sublist"
    "HOL-Library.AList"
    "HOL-Library.Multiset"
begin

section \<open>Strings and character classes\<close>

text \<open>
  A JavaScript string is a sequence of code units; it is modelled as a \<^typ>\<open>string\<close>, one
  \<^typ>\<open>char\<close> per code unit, which covers the code units \<open>0..255\<close>. None of the regular
  expressions of \<^verbatim>\<open>extract-paths.js\<close> carries the \<^verbatim>\<open>u\<close> flag, so they read the
  input one code unit at a time, and every class they name is a set of ASCII characters.
  The order on \<^typ>\<open>char\<close> is the order of the code units, and the order on strings is the
  lexicographic one, which is how \<^verbatim>\<open>Array.prototype.sort()\<close> compares strings when it is
  given no comparison function.
\<close>

type_synonym charclass = "char \<Rightarrow> bool"

definition isLower :: charclass where
  "isLower c = (CHR ''a'' \<le> c \<and> c \<le> CHR ''z'')"

definition isUpper :: charclass where
  "isUpper c = (CHR ''A'' \<le> c \<and> c \<le> CHR ''Z'')"

definition isDigit :: charclass where
  "isDigit c = (CHR ''0'' \<le> c \<and> c \<le> CHR ''9'')"

text \<open>\<^verbatim>\<open>[a-zA-Z]\<close>\<close>

definition isLetter :: charclass where
  "isLetter c = (isLower c \<or> isUpper c)"

text \<open>\<^verbatim>\<open>[a-zA-Z0-9_]\<close>\<close>

definition isIdent :: charclass where
  "isIdent c = (isLetter c \<or> isDigit c \<or> c = CHR ''_'')"

text \<open>\<^verbatim>\<open>[a-zA-Z0-9\-_]\<close>\<close>

definition isNameChar :: charclass where
  "isNameChar c = (isLetter c \<or> isDigit c \<or> c = CHR ''-'' \<or> c = CHR ''_'')"

text \<open>\<^verbatim>\<open>[a-zA-Z0-9\-_/*]\<close>\<close>

definition isSegmentChar :: charclass where
  "isSegmentChar c = (isNameChar c \<or> c = CHR ''/'' \<or> c = CHR ''*'')"

text \<open>\<^verbatim>\<open>[a-zA-Z0-9\-_/*:]\<close>\<close>

definition isPathChar :: charclass where
  "isPathChar c = (isSegmentChar c \<or> c = CHR '':'')"

text \<open>The class of the three quote characters: single quote, double quote, backtick.\<close>

definition isQuote :: charclass where
  "isQuote c = (c = CHR 0x27 \<or> c = CHR 0x22 \<or> c = CHR 0x60)"

text \<open>A single literal character, and a literal character under the \<^verbatim>\<open>i\<close> flag.\<close>

definition lit :: "char \<Rightarrow> charclass" where
  "lit a c = (c = a)"

definition litI :: "char \<Rightarrow> char \<Rightarrow> charclass" where
  "litI lower upper c = (c = lower \<or> c = upper)"

text \<open>
  White space as \<^verbatim>\<open>String.prototype.trim\<close> sees it, among the code units \<open>0..255\<close>:
  tab, line feed, vertical tab, form feed, carriage return, space, no-break space.
\<close>

definition isWhite :: charclass where
  "isWhite c = (c = CHR 0x09 \<or> c = CHR 0x0A \<or> c = CHR 0x0B \<or> c = CHR 0x0C \<or> c = CHR 0x0D
                \<or> c = CHR 0x20 \<or> c = CHR 0xA0)"

definition trim :: "string \<Rightarrow> string" where
  "trim s = rev (dropWhile isWhite (rev (dropWhile isWhite s)))"

definition startsWith :: "string \<Rightarrow> string \<Rightarrow> bool" where
  "startsWith s p = prefix p s"

definition endsWith :: "string \<Rightarrow> string \<Rightarrow> bool" where
  "endsWith s p = suffix p s"

text \<open>\<^verbatim>\<open>s.includes(sub)\<close>: \<open>sub\<close> occurs in \<open>s\<close> as a contiguous run.\<close>

definition str_includes :: "string \<Rightarrow> string \<Rightarrow> bool" where
  "str_includes s sub = sublist sub s"

text \<open>\<^verbatim>\<open>xs.join(sep)\<close>\<close>

fun joinWith :: "string \<Rightarrow> string list \<Rightarrow> string" where
  "joinWith sep [] = []"
| "joinWith sep [x] = x"
| "joinWith sep (x # y # ys) = x @ sep @ joinWith sep (y # ys)"

text \<open>
  The decimal text of a non-negative integer, as a template literal renders a number.
  (The counters rendered here count matches in one string, far below \<open>2^53\<close>.)
\<close>

function showNat :: "nat \<Rightarrow> string" where
  "showNat n =
     (if n < 10 then [char_of (48 + n)]
      else showNat (n div 10) @ [char_of (48 + n mod 10)])"
  by pat_completeness auto
termination
  by (relation "measure (\<lambda>n. n)") auto

declare showNat.simps [simp del]

text \<open>
  A \<^verbatim>\<open>Set\<close> of strings is the list of its members in insertion order, which is the order
  \<^verbatim>\<open>Array.from\<close> and the spread syntax read it in; \<^verbatim>\<open>add\<close> leaves a set that already has
  the member as it is.
\<close>

definition setAdd :: "string list \<Rightarrow> string \<Rightarrow> string list" where
  "setAdd xs x = (if x \<in> set xs then xs else xs @ [x])"

definition newSet :: "string list \<Rightarrow> string list" where
  "newSet xs = foldl setAdd [] xs"

section \<open>Regular expressions\<close>

text \<open>
  Every regular expression of the program is a sequence of single-character atoms, each
  with a quantifier, and possibly the assertion \<^verbatim>\<open>$\<close>. \<open>matchHere\<close> is the backtracking
  matcher of ECMAScript on such a sequence, tried at the start of \<open>s\<close>: a greedy quantifier
  tries one more character before it tries the rest of the pattern, a lazy one the rest
  of the pattern first. It returns the length of the match found first in this order.
\<close>

datatype quant = One | Opt | Star | Plus | LazyStar

datatype item = Chars charclass quant | Eoi

fun matchHere :: "item list \<Rightarrow> string \<Rightarrow> nat option" where
  "matchHere [] s = Some 0"
| "matchHere (Eoi # r) [] = matchHere r []"
| "matchHere (Eoi # r) (c # cs) = None"
| "matchHere (Chars p One # r) [] = None"
| "matchHere (Chars p One # r) (c # cs) =
     (if p c then map_option Suc (matchHere r cs) else None)"
| "matchHere (Chars p Opt # r) [] = matchHere r []"
| "matchHere (Chars p Opt # r) (c # cs) =
     (if p c then
        (case matchHere r cs of Some n \<Rightarrow> Some (Suc n) | None \<Rightarrow> matchHere r (c # cs))
      else matchHere r (c # cs))"
| "matchHere (Chars p Star # r) [] = matchHere r []"
| "matchHere (Chars p Star # r) (c # cs) =
     (if p c then
        (case matchHere (Chars p Star # r) cs of Some n \<Rightarrow> Some (Suc n)
         | None \<Rightarrow> matchHere r (c # cs))
      else matchHere r (c # cs))"
| "matchHere (Chars p Plus # r) [] = None"
| "matchHere (Chars p Plus # r) (c # cs) =
     (if p c then map_option Suc (matchHere (Chars p Star # r) cs) else None)"
| "matchHere (Chars p LazyStar # r) [] = matchHere r []"
| "matchHere (Chars p LazyStar # r) (c # cs) =
     (case matchHere r (c # cs) of Some n \<Rightarrow> Some n
      | None \<Rightarrow>
          if p c then map_option Suc (matchHere (Chars p LazyStar # r) cs) else None)"

text \<open>The leftmost match: the index where it starts and its length.\<close>

fun search :: "item list \<Rightarrow> string \<Rightarrow> (nat \<times> nat) option" where
  "search items [] = map_option (Pair 0) (matchHere items [])"
| "search items (c # cs) =
     (case matchHere items (c # cs) of Some n \<Rightarrow> Some (0, n)
      | None \<Rightarrow> map_option (\<lambda>(i, n). (Suc i, n)) (search items cs))"

text \<open>\<^verbatim>\<open>regex.test(s)\<close>, and the same for a pattern that starts with \<^verbatim>\<open>^\<close>, which can
  match at index 0 only.\<close>

definition test :: "item list \<Rightarrow> string \<Rightarrow> bool" where
  "test items s = (search items s \<noteq> None)"

definition testAtStart :: "item list \<Rightarrow> string \<Rightarrow> bool" where
  "testAtStart items s = (matchHere items s \<noteq> None)"

text \<open>
  \<^verbatim>\<open>regex.exec(s)\<close> of a global pattern, with \<^verbatim>\<open>lastIndex\<close> kept as the input that is
  left: the text matched and the input after the match. (No pattern of the program looks
  behind the index it is tried at, so a match in the rest of the input is a match in the
  input from \<^verbatim>\<open>lastIndex\<close>.)
\<close>

definition exec :: "item list \<Rightarrow> string \<Rightarrow> (string \<times> string) option" where
  "exec items s =
     (case search items s of None \<Rightarrow> None
      | Some (i, n) \<Rightarrow> Some (take n (drop i s), drop (i + n) s))"

text \<open>\<^verbatim>\<open>s.replace(regex, repl)\<close> for a pattern without the \<^verbatim>\<open>g\<close> flag and a replacement
  text without \<^verbatim>\<open>$\<close>: the leftmost match only.\<close>

definition replaceFirst :: "item list \<Rightarrow> string \<Rightarrow> string \<Rightarrow> string" where
  "replaceFirst items repl s =
     (case search items s of None \<Rightarrow> s
      | Some (i, n) \<Rightarrow> take i s @ repl @ drop (i + n) s)"

text \<open>
  \<^verbatim>\<open>s.replace(regex, callback)\<close> for a global pattern: every match, left to right, is
  replaced by what the callback returns; the search goes on after the match (one
  character further after an empty match). The callback of the program reads and
  updates a variable of its closure, which is the state \<open>st\<close> here.
\<close>

fun replaceEach :: "item list \<Rightarrow> ('st \<Rightarrow> string \<times> 'st) \<Rightarrow> 'st \<Rightarrow> string \<Rightarrow> string" where
  "replaceEach items cb st [] =
     (case matchHere items [] of None \<Rightarrow> [] | Some n \<Rightarrow> fst (cb st))"
| "replaceEach items cb st (c # cs) =
     (case matchHere items (c # cs) of
        None \<Rightarrow> c # replaceEach items cb st cs
      | Some n \<Rightarrow>
          (case cb st of (v, st') \<Rightarrow>
             if n = 0 then v @ c # replaceEach items cb st' cs
             else v @ replaceEach items cb st' (drop n (c # cs))))"

text \<open>
  \<^verbatim>\<open>s.split(regex)\<close>: \<open>cur\<close> is the piece being read. A match ends the piece; an empty
  match ends it only when the piece is not empty.
\<close>

fun splitOn :: "item list \<Rightarrow> string \<Rightarrow> string \<Rightarrow> string list" where
  "splitOn items cur [] = [cur]"
| "splitOn items cur (c # cs) =
     (case matchHere items (c # cs) of
        None \<Rightarrow> splitOn items (cur @ [c]) cs
      | Some n \<Rightarrow>
          if n = 0 then (if cur = [] then splitOn items [c] cs else cur # splitOn items [c] cs)
          else cur # splitOn items [] (drop n (c # cs)))"

definition split :: "item list \<Rightarrow> string \<Rightarrow> string list" where
  "split items s =
     (if s = [] then (case matchHere items [] of None \<Rightarrow> [[]] | Some n \<Rightarrow> [])
      else splitOn items [] s)"

section \<open>The substitution engine: \<^verbatim>\<open>replacePaths\<close>\<close>

text \<open>
  The value \<^verbatim>\<open>idx === 0 ? 'magun4' : `magun4_${idx}`\<close>, which the program computes in
  \<^verbatim>\<open>replacePaths\<close> (line 107) and in \<^verbatim>\<open>processUrlList\<close> (line 161).
\<close>

definition placeholder :: "nat \<Rightarrow> string" where
  "placeholder idx = (if idx = 0 then ''magun4'' else ''magun4_'' @ showNat idx)"

text \<open>\<^verbatim>\<open>/:([a-zA-Z0-9_]+)/g\<close>\<close>

definition paramRegex :: "item list" where
  "paramRegex = [Chars (lit CHR '':'') One, Chars isIdent Plus]"

text \<open>The callback of line 106: it returns the value for \<open>paramIndex\<close> and increments it.\<close>

definition paramCallback :: "nat \<Rightarrow> string \<times> nat" where
  "paramCallback paramIndex = (placeholder paramIndex, paramIndex + 1)"

text \<open>\<^verbatim>\<open>/\/\*$/\<close> and \<^verbatim>\<open>/\/$/\<close>\<close>

definition wildcardRegex :: "item list" where
  "wildcardRegex = [Chars (lit CHR ''/'') One, Chars (lit CHR ''*'') One, Eoi]"

definition trailingSlashRegex :: "item list" where
  "trailingSlashRegex = [Chars (lit CHR ''/'') One, Eoi]"

text \<open>Lines 103 to 110: \<open>paramIndex\<close> starts at 0 in every call.\<close>

definition replaceParams :: "string \<Rightarrow> string" where
  "replaceParams pathStr = replaceEach paramRegex paramCallback 0 pathStr"

definition replacePaths :: "string \<Rightarrow> string \<Rightarrow> string" where
  "replacePaths pathStr domain =
     (let replaced = replaceParams pathStr;
          withoutWildcard = replaceFirst wildcardRegex [] replaced;
          cleanDomain = replaceFirst trailingSlashRegex [] domain;
          cleanPath = (if startsWith withoutWildcard ''/'' then withoutWildcard
                       else ''/'' @ withoutWildcard)
      in cleanDomain @ cleanPath)"

section \<open>The path extractor: \<^verbatim>\<open>extractPaths\<close>\<close>

text \<open>
  \<^verbatim>\<open>/['"`](\/[a-zA-Z0-9\-_/*]*\/:[a-zA-Z0-9\-_]+[a-zA-Z0-9\-_/*:]*?)['"`]/g\<close>.
  The group is everything between the first atom and the last, each of which matches
  one character.
\<close>

definition pathRegex :: "item list" where
  "pathRegex =
     [Chars isQuote One,
      Chars (lit CHR ''/'') One, Chars isSegmentChar Star,
      Chars (lit CHR ''/'') One, Chars (lit CHR '':'') One,
      Chars isNameChar Plus, Chars isPathChar LazyStar,
      Chars isQuote One]"

text \<open>\<^verbatim>\<open>/\/:[a-zA-Z][a-zA-Z0-9\-_]*/\<close>\<close>

definition paramNameRegex :: "item list" where
  "paramNameRegex =
     [Chars (lit CHR ''/'') One, Chars (lit CHR '':'') One,
      Chars isLetter One, Chars isNameChar Star]"

text \<open>The condition of lines 76 to 91.\<close>

definition validPath :: "string \<Rightarrow> bool" where
  "validPath path =
     (startsWith path ''/'' \<and>
      str_includes path ''/:'' \<and>
      \<not> str_includes path '' '' \<and>
      \<not> str_includes path ''('' \<and>
      \<not> str_includes path '')'' \<and>
      \<not> str_includes path ''['' \<and>
      \<not> str_includes path '']'' \<and>
      \<not> str_includes path [CHR 0x5C] \<and>
      \<not> str_includes path ''?!'' \<and>
      \<not> str_includes path ''|'' \<and>
      length path > 2 \<and>
      length path < 200 \<and>
      test paramNameRegex path)"

text \<open>
  The loop of lines 66 to 96 over the input that is left, with the set \<open>paths\<close>.
  \<open>m\<close> is \<^verbatim>\<open>match[0]\<close>, and \<^verbatim>\<open>match[1]\<close> is \<open>m\<close> without its first and last character.
  The replacement of line 93 puts \<^verbatim>\<open>/*\<close> where \<^verbatim>\<open>/*\<close> ends the path. That the loop ends
  on every input is proved with the lemmas on the matcher (\<open>termination pathLoop\<close>).
\<close>

function pathLoop :: "string \<Rightarrow> string list \<Rightarrow> string list" where
  "pathLoop content paths =
     (case exec pathRegex content of
        None \<Rightarrow> paths
      | Some (m, rest) \<Rightarrow>
          (let path = butlast (tl m) in
           if validPath path then
             (let cleanPath = replaceFirst wildcardRegex ''/*'' path
              in pathLoop rest (setAdd paths cleanPath))
           else pathLoop rest paths))"
  by pat_completeness auto

definition extractPaths :: "string \<Rightarrow> string list" where
  "extractPaths content = pathLoop content []"

section \<open>The platform\<close>

text \<open>
  The program calls Node's \<^verbatim>\<open>fs\<close>, \<^verbatim>\<open>path\<close> and \<^verbatim>\<open>url\<close> modules. They are not code of the
  repository, so they are parameters of the model: a \<open>platform\<close> says what each call
  returns, or which error it throws (\<open>Inl\<close>). \<^verbatim>\<open>statSync\<close> is read through
  \<^verbatim>\<open>isDirectory()\<close> only. \<^verbatim>\<open>new URL(s)\<close> gives the three fields the program reads and the
  entries of \<^verbatim>\<open>searchParams\<close> in their order; \<open>urlencoded\<close> is
  \<^verbatim>\<open>URLSearchParams.prototype.toString\<close> on a list of appended pairs.
\<close>

datatype error = Error (message: string)

record url =
  origin :: string
  pathname :: string
  hash :: string
  searchParams :: "(string \<times> string) list"

record platform =
  existsSync :: "string \<Rightarrow> bool"
  readdirSync :: "string \<Rightarrow> error + string list"
  statSync :: "string \<Rightarrow> error + bool"
  readFileSync :: "string \<Rightarrow> error + string"
  writeFileSync :: "string \<Rightarrow> string \<Rightarrow> error option"
  pathJoin :: "string \<Rightarrow> string \<Rightarrow> string"
  pathBasename :: "string \<Rightarrow> string"
  newURL :: "string \<Rightarrow> error + url"
  urlencoded :: "(string \<times> string) list \<Rightarrow> string"

text \<open>
  What a run prints, one constructor per message of the program:
  \<^item> \<open>ErrNoDirectory dir\<close>: \<^verbatim>\<open>Error: Directory ${dir} does not exist\<close> (line 37, stderr);
  \<^item> \<open>ErrNoUrlsFile f\<close>: \<^verbatim>\<open>Error: URLs file ${filePath} does not exist\<close> (line 125, stderr);
  \<^item> \<open>LogNoUrls\<close>: \<^verbatim>\<open>No URLs with query parameters found in the provided list.\<close> (line 178);
  \<^item> \<open>LogCreatedWaymore n\<close>: \<^verbatim>\<open>Created CSPT_magun4_waymore.txt with ${n} URL(s)\<close> (line 181);
  \<^item> \<open>LogUsage\<close>: the five lines of \<^verbatim>\<open>showUsage\<close> (lines 191 to 195);
  \<^item> \<open>LogProcessing f\<close>: \<^verbatim>\<open>Processing URL list: ${f}\<close> (line 200);
  \<^item> \<open>LogDone\<close>: the final \<^verbatim>\<open>Done!\<close> line (lines 202 and 253);
  \<^item> \<open>LogScanning dir\<close>, \<open>LogDomain d\<close>, \<open>LogFoundFiles n\<close>: lines 212, 213, 216;
  \<^item> \<open>LogFoundPaths n base\<close>: \<^verbatim>\<open>Found ${n} path(s) in ${base}\<close> (line 227);
  \<^item> \<open>ErrReading file msg\<close>: \<^verbatim>\<open>Error reading ${file}: ${msg}\<close> (line 231, stderr);
  \<^item> \<open>LogNoPaths\<close>: \<^verbatim>\<open>No paths with parameters found!\<close> (line 236);
  \<^item> \<open>LogCreatedPaths n\<close>, \<open>LogCreatedCspt n\<close>: lines 245 and 251.
\<close>

datatype event =
    ErrNoDirectory string
  | ErrNoUrlsFile string
  | LogNoUrls
  | LogCreatedWaymore nat
  | LogUsage
  | LogProcessing string
  | LogDone
  | LogScanning string
  | LogDomain string
  | LogFoundFiles nat
  | LogFoundPaths nat string
  | ErrReading string string
  | LogNoPaths
  | LogCreatedPaths nat
  | LogCreatedCspt nat

text \<open>
  How a function ends: it returns, it calls \<^verbatim>\<open>process.exit(code)\<close>, or an error leaves it
  uncaught. A process whose \<^verbatim>\<open>main\<close> returns exits with code 0; Node exits with code 1
  on an uncaught error.
\<close>

datatype completion = Returned | Exit nat | Thrown error

fun exitCode :: "completion \<Rightarrow> nat" where
  "exitCode Returned = 0"
| "exitCode (Exit code) = code"
| "exitCode (Thrown e) = 1"

record outcome =
  console :: "event list"
  written :: "(string \<times> string) list"
  completion :: completion

section \<open>The file collector: \<^verbatim>\<open>getAllJsFiles\<close>\<close>

text \<open>
  The recursion follows the directory tree, which the platform decides, so it carries
  fuel: \<open>None\<close> is a recursion deeper than the fuel. The result is what it printed and
  either the error that left it or the files. \<open>forItems\<close> is the loop of lines 43 to 52
  over the items that are left; the files it returns are those pushed from there on.
\<close>

fun getAllJsFiles :: "nat \<Rightarrow> platform \<Rightarrow> string \<Rightarrow> (event list \<times> (error + string list)) option"
  and forItems :: "nat \<Rightarrow> platform \<Rightarrow> string \<Rightarrow> string list \<Rightarrow> (event list \<times> (error + string list)) option"
  where
  "getAllJsFiles 0 env dir = None"
| "getAllJsFiles (Suc fuel) env dir =
     (if \<not> existsSync env dir then Some ([ErrNoDirectory dir], Inr [])
      else
        (case readdirSync env dir of
           Inl e \<Rightarrow> Some ([], Inl e)
         | Inr items \<Rightarrow> forItems fuel env dir items))"
| "forItems fuel env dir [] = Some ([], Inr [])"
| "forItems fuel env dir (item # rest) =
     (let fullPath = pathJoin env dir item in
      case statSync env fullPath of
        Inl e \<Rightarrow> Some ([], Inl e)
      | Inr isDirectory \<Rightarrow>
          if isDirectory then
            (case getAllJsFiles fuel env fullPath of
               None \<Rightarrow> None
             | Some (log, Inl e) \<Rightarrow> Some (log, Inl e)
             | Some (log, Inr sub) \<Rightarrow>
                 (case forItems fuel env dir rest of
                    None \<Rightarrow> None
                  | Some (log', Inl e) \<Rightarrow> Some (log @ log', Inl e)
                  | Some (log', Inr files) \<Rightarrow> Some (log @ log', Inr (sub @ files))))
          else if endsWith item ''.js'' then
            (case forItems fuel env dir rest of
               None \<Rightarrow> None
             | Some (log', Inl e) \<Rightarrow> Some (log', Inl e)
             | Some (log', Inr files) \<Rightarrow> Some (log', Inr (fullPath # files)))
          else forItems fuel env dir rest)"

section \<open>The URL list canonicalizer: \<^verbatim>\<open>processUrlList\<close>\<close>

text \<open>\<^verbatim>\<open>/\r?\n/\<close> and \<^verbatim>\<open>/^https?:\/\//i\<close> (the latter is tried at index 0 only).\<close>

definition lineBreakRegex :: "item list" where
  "lineBreakRegex = [Chars (lit CHR 0x0D) Opt, Chars (lit CHR 0x0A) One]"

definition schemeRegex :: "item list" where
  "schemeRegex =
     [Chars (litI CHR ''h'' CHR ''H'') One, Chars (litI CHR ''t'' CHR ''T'') One,
      Chars (litI CHR ''t'' CHR ''T'') One, Chars (litI CHR ''p'' CHR ''P'') One,
      Chars (litI CHR ''s'' CHR ''S'') Opt,
      Chars (lit CHR '':'') One, Chars (lit CHR ''/'') One, Chars (lit CHR ''/'') One]"

text \<open>
  \<^verbatim>\<open>keyCounts\<close> is an object literal \<^verbatim>\<open>{}\<close>: a read of a property it does not own falls
  back to \<^verbatim>\<open>Object.prototype\<close>. The values that the loop of lines 148 to 150 can meet
  or store are
  \<^item> \<open>Undefined\<close>: neither the object nor its prototype has the property;
  \<^item> \<open>Number n\<close>: a count;
  \<^item> \<open>Inherited\<close>: a member of \<^verbatim>\<open>Object.prototype\<close> (a function, or the prototype itself
    for \<^verbatim>\<open>__proto__\<close>), which is truthy;
  \<^item> \<open>Text\<close>: a string that \<^verbatim>\<open>+ 1\<close> made of such a member, that is its source text followed
    by 1s, such as \<^verbatim>\<open>function Object() { [native code] }1\<close>; it is truthy and it is not
    the text of a number.
  An object is the list of its own properties in the order of their creation.
\<close>

datatype jsvalue = Undefined | Number nat | Inherited | Text

type_synonym jsobject = "(string \<times> jsvalue) list"

definition objectPrototypeNames :: "string list" where
  "objectPrototypeNames =
     [''constructor'', ''__defineGetter__'', ''__defineSetter__'', ''hasOwnProperty'',
      ''__lookupGetter__'', ''__lookupSetter__'', ''isPrototypeOf'',
      ''propertyIsEnumerable'', ''toString'', ''valueOf'', ''__proto__'',
      ''toLocaleString'']"

text \<open>\<^verbatim>\<open>obj[key]\<close>\<close>

definition getProp :: "jsobject \<Rightarrow> string \<Rightarrow> jsvalue" where
  "getProp obj key =
     (case map_of obj key of
        Some v \<Rightarrow> v
      | None \<Rightarrow> if key \<in> set objectPrototypeNames then Inherited else Undefined)"

text \<open>
  \<^verbatim>\<open>obj[key] = v\<close> for a number or a string \<open>v\<close>: the setter of \<^verbatim>\<open>__proto__\<close> ignores a
  value that is neither an object nor null; any other key becomes, or stays, a property
  of the object itself.
\<close>

definition setProp :: "jsobject \<Rightarrow> string \<Rightarrow> jsvalue \<Rightarrow> jsobject" where
  "setProp obj key v = (if key = ''__proto__'' then obj else AList.update key v obj)"

text \<open>\<^verbatim>\<open>(v || 0) + 1\<close>: a number is incremented, a function, an object or a string is
  joined with the text \<^verbatim>\<open>1\<close>.\<close>

fun orZeroPlusOne :: "jsvalue \<Rightarrow> jsvalue" where
  "orZeroPlusOne Undefined = Number 1"
| "orZeroPlusOne (Number n) = Number (n + 1)"
| "orZeroPlusOne Inherited = Text"
| "orZeroPlusOne Text = Text"

text \<open>Lines 147 to 150.\<close>

definition countKeys :: "(string \<times> string) list \<Rightarrow> jsobject" where
  "countKeys entries =
     foldl (\<lambda>keyCounts (key, value). setProp keyCounts key (orZeroPlusOne (getProp keyCounts key)))
       [] entries"

text \<open>
  How often the loop \<^verbatim>\<open>for (let i = 0; i < v; i++)\<close> runs: \<open>n\<close> times for the number \<open>n\<close>;
  never for a text that is not the text of a number, which compares as \<^verbatim>\<open>NaN\<close>.
\<close>

fun iterations :: "jsvalue \<Rightarrow> nat" where
  "iterations (Number n) = n"
| "iterations v = 0"

text \<open>
  Lines 151 to 155. \<^verbatim>\<open>Object.keys\<close> lists the own properties (those that look like array
  indices first); the keys are distinct, so the sorted list does not depend on that
  order.
\<close>

definition keysWithDupes :: "(string \<times> string) list \<Rightarrow> string list" where
  "keysWithDupes entries =
     (let keyCounts = countKeys entries;
          sortedKeys = sort (map fst keyCounts)
      in concat (map (\<lambda>k. replicate (iterations (getProp keyCounts k)) k) sortedKeys))"

text \<open>Lines 158 to 164: the pairs appended to \<^verbatim>\<open>canonParams\<close>, from \<open>idx\<close> on.\<close>

fun inject :: "nat \<Rightarrow> string list \<Rightarrow> (string \<times> string) list" where
  "inject idx [] = []"
| "inject idx (k # ks) = (k, placeholder idx) # inject (idx + 1) ks"

definition canonParams :: "(string \<times> string) list \<Rightarrow> (string \<times> string) list" where
  "canonParams entries = inject 0 (keysWithDupes entries)"

text \<open>Lines 167 and 168.\<close>

definition finalUrl :: "platform \<Rightarrow> url \<Rightarrow> string" where
  "finalUrl env urlObj =
     (let canonSearch = urlencoded env (canonParams (searchParams urlObj))
      in origin urlObj @ pathname urlObj
         @ (if canonSearch \<noteq> [] then ''?'' @ canonSearch else [])
         @ hash urlObj)"

text \<open>
  One round of the loop of lines 133 to 174: \<open>None\<close> when the line is passed over
  (\<^verbatim>\<open>continue\<close>, also from the \<^verbatim>\<open>catch\<close>), or the URL that is added to \<open>output\<close>.
  Nothing in the loop prints.
\<close>

definition processLine :: "platform \<Rightarrow> string \<Rightarrow> string option" where
  "processLine env line =
     (let trimmed = trim line in
      if trimmed = [] then None
      else if \<not> testAtStart schemeRegex trimmed then None
      else if \<not> str_includes trimmed ''?'' then None
      else
        (case newURL env trimmed of
           Inl err \<Rightarrow> None
         | Inr urlObj \<Rightarrow>
             if length (searchParams urlObj) = 0 then None
             else Some (finalUrl env urlObj)))"

definition collectUrls :: "platform \<Rightarrow> string list \<Rightarrow> string list" where
  "collectUrls env lines =
     foldl (\<lambda>output line. case processLine env line of None \<Rightarrow> output
                           | Some u \<Rightarrow> setAdd output u) [] lines"

definition processUrlList :: "platform \<Rightarrow> string \<Rightarrow> outcome" where
  "processUrlList env filePath =
     (if \<not> existsSync env filePath then
        \<lparr>console = [ErrNoUrlsFile filePath], written = [], completion = Exit 1\<rparr>
      else
        (case readFileSync env filePath of
           Inl e \<Rightarrow> \<lparr>console = [], written = [], completion = Thrown e\<rparr>
         | Inr text \<Rightarrow>
             (let lines = split lineBreakRegex text;
                  outArr = collectUrls env lines
              in if length outArr = 0 then
                   \<lparr>console = [LogNoUrls], written = [], completion = Returned\<rparr>
                 else
                   (let content = joinWith [CHR 0x0A] outArr in
                    case writeFileSync env ''CSPT_magun4_waymore.txt'' content of
                      Some e \<Rightarrow> \<lparr>console = [], written = [], completion = Thrown e\<rparr>
                    | None \<Rightarrow>
                        \<lparr>console = [LogCreatedWaymore (length outArr)],
                         written = [(''CSPT_magun4_waymore.txt'', content)],
                         completion = Returned\<rparr>))))"

section \<open>The command line: \<^verbatim>\<open>parseArgs\<close> and \<^verbatim>\<open>main\<close>\<close>

record config =
  jsDir :: "string option"
  domain :: "string option"
  urlsFile :: "string option"

text \<open>
  The loop of lines 16 to 27 over the arguments from index \<open>i\<close> on. \<^verbatim>\<open>args[i + 1]\<close> is
  truthy when there is a next argument and it is not the empty string.
\<close>

fun parseArgsFrom :: "config \<Rightarrow> string list \<Rightarrow> config" where
  "parseArgsFrom cfg [] = cfg"
| "parseArgsFrom cfg [a] = cfg"
| "parseArgsFrom cfg (a # b # rest) =
     (if a = ''-js'' \<and> b \<noteq> [] then parseArgsFrom (cfg\<lparr>jsDir := Some b\<rparr>) rest
      else if a = ''-d'' \<and> b \<noteq> [] then parseArgsFrom (cfg\<lparr>domain := Some b\<rparr>) rest
      else if a = ''-urls'' \<and> b \<noteq> [] then parseArgsFrom (cfg\<lparr>urlsFile := Some b\<rparr>) rest
      else parseArgsFrom cfg (b # rest))"

definition parseArgs :: "string list \<Rightarrow> config" where
  "parseArgs args = parseArgsFrom \<lparr>jsDir = None, domain = None, urlsFile = None\<rparr> args"

text \<open>A field of the configuration is truthy when it is a string that is not empty.\<close>

fun truthy :: "string option \<Rightarrow> bool" where
  "truthy None = False"
| "truthy (Some s) = (s \<noteq> [])"

text \<open>
  The loop of lines 221 to 233 over the files that are left: what it prints and the set
  \<open>allPaths\<close> after it.
\<close>

fun readAll :: "platform \<Rightarrow> string list \<Rightarrow> string list \<Rightarrow> event list \<times> string list" where
  "readAll env [] allPaths = ([], allPaths)"
| "readAll env (file # files) allPaths =
     (case readFileSync env file of
        Inl e \<Rightarrow>
          (case readAll env files allPaths of
             (log, result) \<Rightarrow> (ErrReading file (message e) # log, result))
      | Inr content \<Rightarrow>
          (let paths = extractPaths content in
           if length paths > 0 then
             (case readAll env files (foldl setAdd allPaths paths) of
                (log, result) \<Rightarrow>
                  (LogFoundPaths (length paths) (pathBasename env file) # log, result))
           else readAll env files allPaths))"

text \<open>Lines 240 to 251: the two arrays that are joined and written.\<close>

definition pathsArrayOf :: "string list \<Rightarrow> string list" where
  "pathsArrayOf allPaths = sort allPaths"

definition csptUrlsOf :: "string list \<Rightarrow> string \<Rightarrow> string list" where
  "csptUrlsOf pathsArray d = newSet (map (\<lambda>p. replacePaths p d) pathsArray)"

definition writeOutputs :: "platform \<Rightarrow> event list \<Rightarrow> string list \<Rightarrow> string \<Rightarrow> outcome" where
  "writeOutputs env log allPaths d =
     (let pathsArray = pathsArrayOf allPaths;
          pathsContent = joinWith [CHR 0x0A] pathsArray
      in case writeFileSync env ''paths.txt'' pathsContent of
           Some e \<Rightarrow> \<lparr>console = log, written = [], completion = Thrown e\<rparr>
         | None \<Rightarrow>
             (let log1 = log @ [LogCreatedPaths (length pathsArray)];
                  csptUrls = csptUrlsOf pathsArray d;
                  csptContent = joinWith [CHR 0x0A] csptUrls
              in case writeFileSync env ''CSPT_magun4.txt'' csptContent of
                   Some e \<Rightarrow>
                     \<lparr>console = log1, written = [(''paths.txt'', pathsContent)],
                      completion = Thrown e\<rparr>
                 | None \<Rightarrow>
                     \<lparr>console = log1 @ [LogCreatedCspt (length csptUrls), LogDone],
                      written = [(''paths.txt'', pathsContent),
                                 (''CSPT_magun4.txt'', csptContent)],
                      completion = Returned\<rparr>))"

definition main :: "nat \<Rightarrow> platform \<Rightarrow> string list \<Rightarrow> outcome option" where
  "main fuel env argv =
     (let cfg = parseArgs argv in
      if truthy (urlsFile cfg) then
        (let r = processUrlList env (the (urlsFile cfg)) in
         Some (r\<lparr>console :=
                   LogProcessing (the (urlsFile cfg)) # console r
                   @ (if completion r = Returned then [LogDone] else [])\<rparr>))
      else if \<not> truthy (jsDir cfg) \<or> \<not> truthy (domain cfg) then
        Some \<lparr>console = [LogUsage], written = [], completion = Exit 1\<rparr>
      else
        (let dir = the (jsDir cfg);
             d = the (domain cfg);
             log0 = [LogScanning dir, LogDomain d]
         in case getAllJsFiles fuel env dir of
              None \<Rightarrow> None
            | Some (log1, Inl e) \<Rightarrow>
                Some \<lparr>console = log0 @ log1, written = [], completion = Thrown e\<rparr>
            | Some (log1, Inr jsFiles) \<Rightarrow>
                (case readAll env jsFiles [] of
                   (log2, allPaths) \<Rightarrow>
                     (let log = log0 @ log1 @ [LogFoundFiles (length jsFiles)] @ log2 in
                      if length allPaths = 0 then
                        Some \<lparr>console = log @ [LogNoPaths], written = [], completion = Returned\<rparr>
                      else Some (writeOutputs env log allPaths d)))))"

section \<open>Notions used to state the properties\<close>

subsection \<open>The placeholder texts\<close>

text \<open>
  The text of the placeholder number \<open>N\<close>, as the specification words it: \<^verbatim>\<open>magun4\<close> for
  \<open>N = 0\<close>, and \<^verbatim>\<open>magun4_\<close> followed by the decimal numeral of \<open>N\<close> otherwise. The decimal
  numeral is written with the ten digit characters; \<open>decimalValue\<close> reads a numeral back
  (lemma \<open>decimal_canonical\<close>: the numeral of \<open>n\<close> has digits only, has no leading zero and
  reads back as \<open>n\<close>).
\<close>

definition digitChars :: string where
  "digitChars = ''0123456789''"

function decimal :: "nat \<Rightarrow> string" where
  "decimal n =
     (if n < 10 then [digitChars ! n]
      else decimal (n div 10) @ [digitChars ! (n mod 10)])"
  by pat_completeness auto
termination
  by (relation "measure (\<lambda>n. n)") auto

declare decimal.simps [simp del]


definition magunText :: "nat \<Rightarrow> string" where
  "magunText N = (if N = 0 then ''magun4'' else ''magun4_'' @ decimal N)"

subsection \<open>Templates and their parameters\<close>

text \<open>
  A parameter of a template, as \<^verbatim>\<open>replacePaths\<close> sees it, is a \<^verbatim>\<open>:\<close> followed by a character
  of \<^verbatim>\<open>[a-zA-Z0-9_]\<close>. \<open>paramFree l\<close>: no parameter starts inside \<open>l\<close>. \<open>startsName s\<close>: the
  first character of \<open>s\<close> could continue a parameter name.
\<close>

fun paramFree :: "string \<Rightarrow> bool" where
  "paramFree [] = True"
| "paramFree [c] = True"
| "paramFree (c # d # r) = (\<not> (c = CHR '':'' \<and> isIdent d) \<and> paramFree (d # r))"

definition startsName :: "string \<Rightarrow> bool" where
  "startsName s = (case s of [] \<Rightarrow> False | c # cs \<Rightarrow> isIdent c)"

text \<open>
  A parameter name is a run of one or more characters of \<^verbatim>\<open>[a-zA-Z0-9_]\<close>; the text after a
  parameter, up to the next one, holds no parameter and does not continue the name.
\<close>

definition isParamName :: "string \<Rightarrow> bool" where
  "isParamName name = (name \<noteq> [] \<and> list_all isIdent name)"

definition isLiteral :: "string \<Rightarrow> bool" where
  "isLiteral l = (paramFree l \<and> \<not> startsName l)"

definition wellFormed :: "(string \<times> string) list \<Rightarrow> bool" where
  "wellFormed segs = list_all (\<lambda>(name, l). isParamName name \<and> isLiteral l) segs"

text \<open>
  A template with \<open>k\<close> parameters is a leading text \<open>l0\<close> followed by \<open>k\<close> segments, each a
  parameter \<open>:name\<close> and the text \<open>l\<close> after it: \<open>l0 @ segments segs\<close>. \<open>filled N segs\<close> is
  what the segments become when the parameters are replaced, in their order, by the
  placeholder texts number \<open>N\<close>, \<open>N + 1\<close>, and so on.
\<close>

fun segments :: "(string \<times> string) list \<Rightarrow> string" where
  "segments [] = []"
| "segments ((name, l) # segs) = CHR '':'' # name @ l @ segments segs"

fun filled :: "nat \<Rightarrow> (string \<times> string) list \<Rightarrow> string" where
  "filled N [] = []"
| "filled N ((name, l) # segs) = magunText N @ l @ filled (N + 1) segs"

subsection \<open>The URL of a replaced template\<close>

text \<open>
  What the specification says of the text \<open>r\<close> that the replacement leaves and of the
  domain \<open>d\<close>: the domain loses one trailing \<^verbatim>\<open>/\<close>, the text loses one trailing \<^verbatim>\<open>/*\<close> and
  gets a leading \<^verbatim>\<open>/\<close> if it has none, and the two are joined.
\<close>

definition withoutTrailingSlash :: "string \<Rightarrow> string" where
  "withoutTrailingSlash d = (if suffix ''/'' d then butlast d else d)"

definition withoutTrailingWildcard :: "string \<Rightarrow> string" where
  "withoutTrailingWildcard r = (if suffix ''/*'' r then take (length r - 2) r else r)"

definition withLeadingSlash :: "string \<Rightarrow> string" where
  "withLeadingSlash w = (if prefix ''/'' w then w else ''/'' @ w)"

definition urlOf :: "string \<Rightarrow> string \<Rightarrow> string" where
  "urlOf d r = withoutTrailingSlash d @ withLeadingSlash (withoutTrailingWildcard r)"

subsection \<open>Quoted occurrences\<close>

text \<open>
  \<open>quotedBy q1 q2 content p\<close>: the text \<open>p\<close> occurs in \<open>content\<close> right after the character
  \<open>q1\<close> and right before the character \<open>q2\<close>. \<open>sameQuoted\<close> asks for one quote character on
  both sides, \<open>anyQuoted\<close> for a quote character on either side. \<open>quoted\<close> is \<open>anyQuoted\<close>
  with the occurrence written out.
\<close>

definition quoteChars :: string where
  "quoteChars = [CHR 0x27, CHR 0x22, CHR 0x60]"

definition quotedBy :: "char \<Rightarrow> char \<Rightarrow> string \<Rightarrow> string \<Rightarrow> bool" where
  "quotedBy q1 q2 content p = sublist (q1 # p @ [q2]) content"

definition sameQuoted :: "string \<Rightarrow> string \<Rightarrow> bool" where
  "sameQuoted content p = (\<exists>q\<in>set quoteChars. quotedBy q q content p)"

definition anyQuoted :: "string \<Rightarrow> string \<Rightarrow> bool" where
  "anyQuoted content p =
     (\<exists>q1\<in>set quoteChars. \<exists>q2\<in>set quoteChars. quotedBy q1 q2 content p)"

definition quoted :: "string \<Rightarrow> string \<Rightarrow> bool" where
  "quoted content p =
     (\<exists>pre q1 q2 post. content = pre @ q1 # p @ q2 # post \<and> isQuote q1 \<and> isQuote q2)"

subsection \<open>Counting keys\<close>

text \<open>
  One round of the loop of lines 148 to 150, the number an object holds for a key, and
  the objects the loop builds when no key is the name of a member of
  \<^verbatim>\<open>Object.prototype\<close>: distinct own keys, each with a number.
\<close>

definition countStep :: "jsobject \<Rightarrow> string \<times> string \<Rightarrow> jsobject" where
  "countStep keyCounts e = setProp keyCounts (fst e) (orZeroPlusOne (getProp keyCounts (fst e)))"

definition numOf :: "jsobject \<Rightarrow> string \<Rightarrow> nat" where
  "numOf obj k = (case map_of obj k of Some (Number n) \<Rightarrow> n | _ \<Rightarrow> 0)"

definition counting :: "jsobject \<Rightarrow> bool" where
  "counting obj =
     (distinct (map fst obj) \<and> fst ` set obj \<inter> set objectPrototypeNames = {} \<and>
      (\<forall>k v. map_of obj k = Some v \<longrightarrow> (\<exists>n. v = Number n)))"

subsection \<open>Lines that are passed over\<close>

text \<open>
  \<open>sameLetter c l\<close>: \<open>c\<close> is \<open>l\<close> or, for a lower-case letter \<open>l\<close>, its upper-case form.
  \<open>hasHttpScheme t\<close>: \<open>t\<close> starts with \<^verbatim>\<open>http://\<close> or \<^verbatim>\<open>https://\<close>, in any case of the letters.
  \<open>skippedLine env line\<close> is the condition of claim C7 on a line: trimmed, it is blank, or
  has no such scheme, or has no \<^verbatim>\<open>?\<close>, or does not parse as a URL, or parses to a URL
  without query entries.
\<close>

definition sameLetter :: "char \<Rightarrow> char \<Rightarrow> bool" where
  "sameLetter c l = (c = l \<or> (isLower l \<and> c = char_of (of_char l - (32::nat))))"

definition eqIgnoreCase :: "string \<Rightarrow> string \<Rightarrow> bool" where
  "eqIgnoreCase s t = list_all2 sameLetter s t"

definition hasHttpScheme :: "string \<Rightarrow> bool" where
  "hasHttpScheme t = (eqIgnoreCase (take 7 t) ''http://'' \<or> eqIgnoreCase (take 8 t) ''https://'')"

definition skippedLine :: "platform \<Rightarrow> string \<Rightarrow> bool" where
  "skippedLine env line =
     (let t = trim line in
      t = [] \<or> \<not> hasHttpScheme t \<or> CHR ''?'' \<notin> set t \<or>
      (case newURL env t of Inl e \<Rightarrow> True | Inr u \<Rightarrow> searchParams u = []))"

subsection \<open>Extraction mode\<close>

text \<open>
  \<open>wellSet cfg\<close>: no field of the configuration is the empty string (\<^verbatim>\<open>parseArgs\<close> stores
  truthy arguments only). \<open>templatesOf env files\<close>: the templates of all the files that can
  be read. \<open>firstOccurrences xs\<close>: \<open>xs\<close> without repetitions, every member at the place of
  its first occurrence. \<open>linesOf content\<close>: the lines of a text, that is the stretches
  between its line feeds.
\<close>

definition wellSet :: "config \<Rightarrow> bool" where
  "wellSet cfg = (jsDir cfg \<noteq> Some [] \<and> domain cfg \<noteq> Some [] \<and> urlsFile cfg \<noteq> Some [])"



definition linefeed :: char where
  "linefeed = CHR 0x0A"

fun linesOf :: "string \<Rightarrow> string list" where
  "linesOf [] = [[]]"
| "linesOf (c # cs) =
     (if c = linefeed then [] # linesOf cs
      else (c # hd (linesOf cs)) # tl (linesOf cs))"

subsection \<open>A concrete platform\<close>

text \<open>
  The platform of the concrete runs below. Its file system has a directory
  \<^verbatim>\<open>JS_files\<close> with the files \<^verbatim>\<open>app.js\<close> (the two routes of the README) and
  \<^verbatim>\<open>notes.txt\<close>, and a directory \<^verbatim>\<open>proj\<close> whose only entry \<^verbatim>\<open>broken.js\<close> is a symbolic
  link to a file that is not there: \<^verbatim>\<open>readdirSync\<close> lists it and \<^verbatim>\<open>statSync\<close>, which follows
  links, throws \<^verbatim>\<open>ENOENT\<close>. Nothing else exists. \<^verbatim>\<open>path.basename\<close> is \<open>basenameOf\<close>, the text
  after the last \<^verbatim>\<open>/\<close>, which is what Node gives for a path that does not end with
  \<^verbatim>\<open>/\<close>. Its URL parser knows two URLs. Query strings are written with
  \<open>plainUrlencoded\<close>, which is what \<^verbatim>\<open>URLSearchParams\<close> prints for keys and values that need
  no escaping.
\<close>

definition basenameOf :: "string \<Rightarrow> string" where
  "basenameOf p = rev (takeWhile (\<lambda>c. c \<noteq> CHR ''/'') (rev p))"

definition plainUrlencoded :: "(string \<times> string) list \<Rightarrow> string" where
  "plainUrlencoded params = joinWith ''&'' (map (\<lambda>(k, v). k @ ''='' @ v) params)"

definition scenarioSource :: string where
  "scenarioSource =
     ''app.get('' @ [CHR 0x27] @ ''/download/:id'' @ [CHR 0x27] @ '', handler);'' @ [CHR 0x0A]
     @ ''app.post('' @ [CHR 0x27] @ ''/user/:userId/post/:postId'' @ [CHR 0x27] @ '', handler);''"

definition scenarioPlatform :: platform where
  "scenarioPlatform =
     \<lparr>existsSync = (\<lambda>p. p = ''JS_files'' \<or> p = ''proj''),
      readdirSync = (\<lambda>p. if p = ''JS_files'' then Inr [''app.js'', ''notes.txt'']
                         else if p = ''proj'' then Inr [''broken.js'']
                         else Inl (Error ''ENOENT'')),
      statSync = (\<lambda>p. if p = ''JS_files/app.js'' \<or> p = ''JS_files/notes.txt'' then Inr False
                      else Inl (Error ''ENOENT'')),
      readFileSync = (\<lambda>p. if p = ''JS_files/app.js'' then Inr scenarioSource
                          else Inl (Error ''ENOENT'')),
      writeFileSync = (\<lambda>p content. None),
      pathJoin = (\<lambda>dir item. dir @ ''/'' @ item),
      pathBasename = basenameOf,
      newURL = (\<lambda>s. if s = ''https://x.com/a?b=1&c=2''
                      then Inr \<lparr>origin = ''https://x.com'', pathname = ''/a'', hash = [],
                                searchParams = [(''b'', ''1''), (''c'', ''2'')]\<rparr>
                      else if s = ''https://x.com/a?constructor=1''
                      then Inr \<lparr>origin = ''https://x.com'', pathname = ''/a'', hash = [],
                                searchParams = [(''constructor'', ''1'')]\<rparr>
                      else Inl (Error ''Invalid URL'')),
      urlencoded = plainUrlencoded\<rparr>"


section \<open>Lemmas\<close>

subsection \<open>The matcher, and the termination of the extraction loop\<close>

lemma matchHere_le: "matchHere items s = Some n \<Longrightarrow> n \<le> length s"
  by (induction items s arbitrary: n rule: matchHere.induct)
     (auto split: if_splits option.splits)

lemma search_sound:
  "search items s = Some (i, n) \<Longrightarrow> i \<le> length s \<and> matchHere items (drop i s) = Some n"
proof (induction s arbitrary: i)
  case Nil
  then show ?case by auto
next
  case (Cons c cs)
  then show ?case by (auto split: option.splits)
qed

lemma search_bounds: "search items s = Some (i, n) \<Longrightarrow> i + n \<le> length s"
proof -
  assume a: "search items s = Some (i, n)"
  from search_sound [OF a] have "i \<le> length s" and "matchHere items (drop i s) = Some n"
    by simp_all
  from matchHere_le [OF this(2)] this(1) show ?thesis by simp
qed

lemma matchHere_One_pos: "matchHere (Chars p One # r) s = Some n \<Longrightarrow> 0 < n"
  by (cases s) (auto split: if_splits)

lemma exec_shorter:
  assumes "exec (Chars p One # r) s = Some (m, rest)"
  shows "length rest < length s"
proof -
  from assms obtain i n where sr: "search (Chars p One # r) s = Some (i, n)"
    and rest: "rest = drop (i + n) s"
    by (auto simp: exec_def split: option.splits)
  from search_sound [OF sr] have "0 < n" using matchHere_One_pos by blast
  with search_bounds [OF sr] rest show ?thesis by simp
qed

text \<open>A match of the path pattern is not empty, so every round of the loop of
  \<^verbatim>\<open>extractPaths\<close> leaves less input: the loop ends on every input.\<close>

termination pathLoop
  by (relation "measure (\<lambda>(content, paths). length content)")
     (auto simp: pathRegex_def dest: exec_shorter)

declare pathLoop.simps [simp del]


subsection \<open>The decimal numeral of a counter\<close>

lemma below_ten: "d < 10 \<Longrightarrow> d \<in> {0, 1, 2, 3, 4, 5, 6, 7, 8, 9::nat}"
  by auto

lemma digit_char_of: "d < 10 \<Longrightarrow> char_of (48 + d) = digitChars ! d"
proof -
  have "char_of (48 + 0::nat) = digitChars ! 0" "char_of (48 + 1::nat) = digitChars ! 1"
    "char_of (48 + 2::nat) = digitChars ! 2" "char_of (48 + 3::nat) = digitChars ! 3"
    "char_of (48 + 4::nat) = digitChars ! 4" "char_of (48 + 5::nat) = digitChars ! 5"
    "char_of (48 + 6::nat) = digitChars ! 6" "char_of (48 + 7::nat) = digitChars ! 7"
    "char_of (48 + 8::nat) = digitChars ! 8" "char_of (48 + 9::nat) = digitChars ! 9"
    by code_simp+
  moreover assume "d < 10"
  ultimately show ?thesis using below_ten [of d] by auto
qed

lemma showNat_decimal: "showNat n = decimal n"
proof (induction n rule: showNat.induct)
  case (1 n)
  show ?case
  proof (cases "n < 10")
    case True
    then show ?thesis by (simp add: showNat.simps [of n] decimal.simps [of n] digit_char_of)
  next
    case False
    have "n mod 10 < 10" by simp
    with False 1 show ?thesis
      by (simp add: showNat.simps [of n] decimal.simps [of n] digit_char_of)
  qed
qed

lemma placeholder_magunText: "placeholder N = magunText N"
  by (simp add: placeholder_def magunText_def showNat_decimal)





subsection \<open>The parameter pattern and the replacement of parameters\<close>

lemma matchHere_Star_only: "matchHere [Chars p Star] s = Some (length (takeWhile p s))"
  by (induction s) auto

lemma matchHere_paramRegex_Nil: "matchHere paramRegex [] = None"
  by (simp add: paramRegex_def)

lemma matchHere_paramRegex_Cons:
  "matchHere paramRegex (c # cs) =
     (if c = CHR '':'' \<and> cs \<noteq> [] \<and> isIdent (hd cs)
      then Some (Suc (length (takeWhile isIdent cs))) else None)"
  by (cases cs) (simp_all add: paramRegex_def lit_def matchHere_Star_only)

lemma replaceEach_param_Nil: "replaceEach paramRegex paramCallback i [] = []"
  by (simp add: matchHere_paramRegex_Nil)

lemma replaceEach_param_Cons:
  "replaceEach paramRegex paramCallback i (c # cs) =
     (if c = CHR '':'' \<and> cs \<noteq> [] \<and> isIdent (hd cs)
      then placeholder i @ replaceEach paramRegex paramCallback (Suc i) (dropWhile isIdent cs)
      else c # replaceEach paramRegex paramCallback i cs)"
  by (simp add: matchHere_paramRegex_Cons paramCallback_def dropWhile_eq_drop del: matchHere.simps)

lemma replaceEach_param_literal:
  "paramFree l \<Longrightarrow> \<not> startsName rest \<Longrightarrow>
   replaceEach paramRegex paramCallback i (l @ rest) = l @ replaceEach paramRegex paramCallback i rest"
proof (induction l rule: paramFree.induct)
  case 1
  then show ?case by simp
next
  case (2 c)
  then show ?case
    by (cases rest) (simp_all add: replaceEach_param_Cons replaceEach_param_Nil startsName_def del: replaceEach.simps)
next
  case (3 c d r)
  from "3.prems"(1) have nc: "\<not> (c = CHR '':'' \<and> isIdent d)" and pf: "paramFree (d # r)"
    by simp_all
  have "replaceEach paramRegex paramCallback i (c # (d # r @ rest)) =
        c # replaceEach paramRegex paramCallback i (d # r @ rest)"
    using nc by (simp only: replaceEach_param_Cons list.sel) auto
  also have "replaceEach paramRegex paramCallback i (d # r @ rest) =
             (d # r) @ replaceEach paramRegex paramCallback i rest"
    using "3.IH" [OF pf "3.prems"(2)] by simp
  finally show ?case by simp
qed

lemma replaceEach_param_name:
  assumes "name \<noteq> []" and "list_all isIdent name" and "\<not> startsName rest"
  shows "replaceEach paramRegex paramCallback i (CHR '':'' # name @ rest) =
         placeholder i @ replaceEach paramRegex paramCallback (Suc i) rest"
proof -
  from assms(1,2) have hd: "isIdent (hd (name @ rest))"
    by (cases name) simp_all
  from assms(2) have "\<forall>c\<in>set name. isIdent c"
    by (simp add: list_all_iff)
  then have "dropWhile isIdent (name @ rest) = dropWhile isIdent rest"
    by (simp add: dropWhile_append)
  also from assms(3) have "dropWhile isIdent rest = rest"
    by (cases rest) (simp_all add: startsName_def)
  finally show ?thesis using hd assms(1)
    by (simp add: replaceEach_param_Cons del: replaceEach.simps)
qed

lemma segments_not_startsName: "\<not> startsName (segments segs)"
  by (cases segs) (auto simp: startsName_def isIdent_def isLetter_def isLower_def isUpper_def isDigit_def)

lemma not_startsName_append: "\<not> startsName l \<Longrightarrow> \<not> startsName r \<Longrightarrow> \<not> startsName (l @ r)"
  by (cases l) (simp_all add: startsName_def)




lemma replaceEach_param_no_colon:
  "CHR '':'' \<notin> set l \<Longrightarrow>
   replaceEach paramRegex paramCallback i (l @ rest) = l @ replaceEach paramRegex paramCallback i rest"
  by (induction l) (auto simp add: replaceEach_param_Cons simp del: replaceEach.simps)

lemma replaceEach_param_segments_append:
  "wellFormed segs \<Longrightarrow> \<not> startsName rest \<Longrightarrow>
   replaceEach paramRegex paramCallback i (segments segs @ rest) =
   filled i segs @ replaceEach paramRegex paramCallback (i + length segs) rest"
proof (induction segs arbitrary: i)
  case Nil
  then show ?case by simp
next
  case (Cons seg segs)
  obtain name l where seg: "seg = (name, l)" by (cases seg)
  from Cons.prems seg have nm: "name \<noteq> []" "list_all isIdent name"
    and lt: "paramFree l" "\<not> startsName l" and wf: "wellFormed segs"
    by (simp_all add: wellFormed_def isParamName_def isLiteral_def)
  have t: "\<not> startsName (segments segs @ rest)"
    using segments_not_startsName Cons.prems(2) by (rule not_startsName_append)
  have r: "\<not> startsName (l @ segments segs @ rest)"
    using lt(2) t by (rule not_startsName_append)
  have "replaceEach paramRegex paramCallback i (segments (seg # segs) @ rest) =
        replaceEach paramRegex paramCallback i (CHR '':'' # name @ (l @ segments segs @ rest))"
    by (simp add: seg del: replaceEach.simps)
  also have "\<dots> = placeholder i
                @ replaceEach paramRegex paramCallback (Suc i) (l @ segments segs @ rest)"
    using nm r by (rule replaceEach_param_name)
  also have "replaceEach paramRegex paramCallback (Suc i) (l @ segments segs @ rest) =
             l @ replaceEach paramRegex paramCallback (Suc i) (segments segs @ rest)"
    using lt(1) t by (rule replaceEach_param_literal)
  also have "replaceEach paramRegex paramCallback (Suc i) (segments segs @ rest) =
             filled (Suc i) segs @ replaceEach paramRegex paramCallback (Suc i + length segs) rest"
    using wf Cons.prems(2) by (rule Cons.IH)
  finally show ?case by (simp add: seg placeholder_magunText)
qed

lemma not_isNameChar_star: "\<not> isNameChar (CHR ''*'')"
  by (simp add: isNameChar_def isLetter_def isLower_def isUpper_def isDigit_def)

lemma not_isNameChar_colon: "\<not> isNameChar (CHR '':'')"
  by (simp add: isNameChar_def isLetter_def isLower_def isUpper_def isDigit_def)

lemma not_isIdent_hyphen: "\<not> isIdent (CHR ''-'')"
  by (simp add: isIdent_def isLetter_def isLower_def isUpper_def isDigit_def)

lemma no_wildcard_after_name:
  assumes "list_all isNameChar trail"
  shows "\<not> suffix ''/*'' (pre @ CHR ''-'' # trail)"
proof
  assume "suffix ''/*'' (pre @ CHR ''-'' # trail)"
  then obtain zs where "pre @ CHR ''-'' # trail = zs @ ''/*''"
    by (auto simp: suffix_def)
  then have "last (pre @ CHR ''-'' # trail) = CHR ''*''"
    by simp
  then have l: "last (CHR ''-'' # trail) = CHR ''*''"
    by simp
  show False
  proof (cases trail)
    case Nil
    with l show False by simp
  next
    case (Cons a as)
    with l have "CHR ''*'' \<in> set trail"
      by (metis last.simps last_in_set list.distinct(1))
    with assms show False
      by (auto simp: list_all_iff not_isNameChar_star)
  qed
qed

subsection \<open>The trailing slash and the trailing wildcard\<close>

lemma matchHere_trailingSlash:
  "matchHere trailingSlashRegex s = (if s = ''/'' then Some 1 else None)"
  by (cases s; cases "tl s") (auto simp: trailingSlashRegex_def lit_def)

lemma search_trailingSlash:
  "search trailingSlashRegex s = (if suffix ''/'' s then Some (length s - 1, 1) else None)"
proof (induction s)
  case Nil
  then show ?case by (simp add: matchHere_trailingSlash)
next
  case (Cons c cs)
  then show ?case
    by (cases cs) (auto simp: matchHere_trailingSlash suffix_Cons simp del: matchHere.simps)
qed

lemma replaceFirst_trailingSlash:
  "replaceFirst trailingSlashRegex [] d = (if suffix ''/'' d then butlast d else d)"
  by (auto simp: replaceFirst_def search_trailingSlash butlast_conv_take suffix_def)

lemma matchHere_wildcard:
  "matchHere wildcardRegex s = (if s = ''/*'' then Some 2 else None)"
  by (cases s; cases "tl s"; cases "tl (tl s)") (auto simp: wildcardRegex_def lit_def)

lemma search_wildcard:
  "search wildcardRegex s = (if suffix ''/*'' s then Some (length s - 2, 2) else None)"
proof (induction s)
  case Nil
  then show ?case by (simp add: matchHere_wildcard)
next
  case (Cons c cs)
  then show ?case
    by (cases cs) (auto simp: matchHere_wildcard suffix_Cons simp del: matchHere.simps)
qed

lemma replaceFirst_wildcard:
  "replaceFirst wildcardRegex repl s =
     (if suffix ''/*'' s then take (length s - 2) s @ repl else s)"
  by (auto simp: replaceFirst_def search_wildcard suffix_def)

lemma replaceFirst_wildcard_same: "replaceFirst wildcardRegex ''/*'' s = s"
  by (auto simp: replaceFirst_wildcard suffix_def)

lemma replacePaths_shape: "replacePaths t d = urlOf d (replaceParams t)"
  by (simp add: replacePaths_def replaceFirst_trailingSlash replaceFirst_wildcard
      startsWith_def Let_def urlOf_def withoutTrailingSlash_def withoutTrailingWildcard_def
      withLeadingSlash_def)

subsection \<open>Templates in segments\<close>

lemma segments_append: "segments (a @ b) = segments a @ segments b"
  by (induction a) auto

lemma filled_append: "filled N (a @ b) = filled N a @ filled (N + length a) b"
  by (induction a arbitrary: N) auto

lemma wellFormed_append: "wellFormed (a @ b) \<longleftrightarrow> wellFormed a \<and> wellFormed b"
  by (simp add: wellFormed_def)

lemma replaceParams_template:
  assumes "paramFree l0" and "wellFormed segs"
  shows "replaceParams (l0 @ segments segs) = l0 @ filled 0 segs"
proof -
  have "replaceParams (l0 @ segments segs) =
        l0 @ replaceEach paramRegex paramCallback 0 (segments segs)"
    unfolding replaceParams_def
    using assms(1) segments_not_startsName by (rule replaceEach_param_literal)
  also have "replaceEach paramRegex paramCallback 0 (segments segs) = filled 0 segs"
    using replaceEach_param_segments_append [OF assms(2), of "[]" 0]
    by (simp add: startsName_def replaceEach_param_Nil del: replaceEach.simps)
  finally show ?thesis .
qed

lemma paramFree_hyphen: "paramFree t \<Longrightarrow> paramFree (CHR ''-'' # t)"
  by (cases t) simp_all

subsection \<open>Lines\<close>

lemma linesOf_not_Nil: "linesOf s \<noteq> []"
  by (induction s) auto




subsection \<open>What the path pattern matches, and what the extractor keeps\<close>

lemma matchHere_One_split:
  assumes "matchHere (Chars p One # r) s = Some n"
  obtains c cs m where "s = c # cs" and "p c" and "matchHere r cs = Some m" and "n = Suc m"
  using assms by (cases s) (auto split: if_splits)

lemma matchHere_Star_split:
  "matchHere (Chars p Star # r) s = Some n \<Longrightarrow>
   \<exists>u v m. s = u @ v \<and> list_all p u \<and> matchHere r v = Some m \<and> n = length u + m"
proof (induction s arbitrary: n)
  case Nil
  then show ?case by auto
next
  case (Cons c cs)
  show ?case
  proof (cases "p c \<and> matchHere (Chars p Star # r) cs \<noteq> None")
    case True
    then obtain k where k: "matchHere (Chars p Star # r) cs = Some k" by auto
    with True Cons.prems have n: "n = Suc k" by simp
    from Cons.IH [OF k] obtain u v m where
      "cs = u @ v" "list_all p u" "matchHere r v = Some m" "k = length u + m"
      by blast
    with True n have "c # cs = (c # u) @ v \<and> list_all p (c # u) \<and> matchHere r v = Some m
        \<and> n = length (c # u) + m"
      by simp
    then show ?thesis by blast
  next
    case False
    with Cons.prems have "matchHere r (c # cs) = Some n"
      by (auto split: if_splits option.splits)
    then have "c # cs = [] @ (c # cs) \<and> list_all p [] \<and> matchHere r (c # cs) = Some n
        \<and> n = length ([] :: string) + n"
      by simp
    then show ?thesis by blast
  qed
qed

lemma matchHere_LazyStar_split:
  "matchHere (Chars p LazyStar # r) s = Some n \<Longrightarrow>
   \<exists>u v m. s = u @ v \<and> list_all p u \<and> matchHere r v = Some m \<and> n = length u + m"
proof (induction s arbitrary: n)
  case Nil
  then show ?case by auto
next
  case (Cons c cs)
  show ?case
  proof (cases "matchHere r (c # cs)")
    case (Some k)
    with Cons.prems have "n = k" by simp
    with Some have "c # cs = [] @ (c # cs) \<and> list_all p [] \<and> matchHere r (c # cs) = Some n
        \<and> n = length ([] :: string) + n"
      by simp
    then show ?thesis by blast
  next
    case None
    with Cons.prems obtain k where pc: "p c"
      and k: "matchHere (Chars p LazyStar # r) cs = Some k" and n: "n = Suc k"
      by (auto split: if_splits)
    from Cons.IH [OF k] obtain u v m where
      "cs = u @ v" "list_all p u" "matchHere r v = Some m" "k = length u + m"
      by blast
    with pc n have "c # cs = (c # u) @ v \<and> list_all p (c # u) \<and> matchHere r v = Some m
        \<and> n = length (c # u) + m"
      by simp
    then show ?thesis by blast
  qed
qed

lemma matchHere_Plus_split:
  assumes "matchHere (Chars p Plus # r) s = Some n"
  shows "\<exists>u v m. s = u @ v \<and> u \<noteq> [] \<and> list_all p u \<and> matchHere r v = Some m
           \<and> n = length u + m"
proof -
  from assms obtain c cs k where s: "s = c # cs" and pc: "p c"
    and k: "matchHere (Chars p Star # r) cs = Some k" and n: "n = Suc k"
    by (cases s) (auto split: if_splits)
  from matchHere_Star_split [OF k] obtain u v m where
    "cs = u @ v" "list_all p u" "matchHere r v = Some m" "k = length u + m"
    by blast
  with s pc n have "s = (c # u) @ v \<and> c # u \<noteq> [] \<and> list_all p (c # u)
      \<and> matchHere r v = Some m \<and> n = length (c # u) + m"
    by simp
  then show ?thesis by blast
qed

lemma isPathChar_cases:
  "isNameChar c \<Longrightarrow> isPathChar c" "isSegmentChar c \<Longrightarrow> isPathChar c"
  "isPathChar (CHR ''/'')" "isPathChar (CHR '':'')"
  by (simp_all add: isPathChar_def isSegmentChar_def)

lemma matchHere_pathRegex:
  assumes "matchHere pathRegex s = Some n"
  shows "\<exists>q1 body q2 post. s = q1 # body @ q2 # post \<and> n = length body + 2
           \<and> isQuote q1 \<and> isQuote q2 \<and> list_all isPathChar body"
proof -
  from assms [unfolded pathRegex_def]
  obtain q1 s1 n1 where s: "s = q1 # s1" and q1: "isQuote q1" and n: "n = Suc n1"
    and m1: "matchHere [Chars (lit CHR ''/'') One, Chars isSegmentChar Star,
      Chars (lit CHR ''/'') One, Chars (lit CHR '':'') One,
      Chars isNameChar Plus, Chars isPathChar LazyStar, Chars isQuote One] s1 = Some n1"
    by (rule matchHere_One_split)
  from m1 obtain c2 s2 n2 where s1: "s1 = c2 # s2" and c2: "lit CHR ''/'' c2" and n1: "n1 = Suc n2"
    and m2: "matchHere [Chars isSegmentChar Star,
      Chars (lit CHR ''/'') One, Chars (lit CHR '':'') One,
      Chars isNameChar Plus, Chars isPathChar LazyStar, Chars isQuote One] s2 = Some n2"
    by (rule matchHere_One_split)
  from matchHere_Star_split [OF m2] obtain u1 s3 n3 where s2: "s2 = u1 @ s3"
    and u1: "list_all isSegmentChar u1" and n2: "n2 = length u1 + n3"
    and m3: "matchHere [Chars (lit CHR ''/'') One, Chars (lit CHR '':'') One,
      Chars isNameChar Plus, Chars isPathChar LazyStar, Chars isQuote One] s3 = Some n3"
    by blast
  from m3 obtain c4 s4 n4 where s3: "s3 = c4 # s4" and c4: "lit CHR ''/'' c4" and n3: "n3 = Suc n4"
    and m4: "matchHere [Chars (lit CHR '':'') One,
      Chars isNameChar Plus, Chars isPathChar LazyStar, Chars isQuote One] s4 = Some n4"
    by (rule matchHere_One_split)
  from m4 obtain c5 s5 n5 where s4: "s4 = c5 # s5" and c5: "lit CHR '':'' c5" and n4: "n4 = Suc n5"
    and m5: "matchHere [Chars isNameChar Plus, Chars isPathChar LazyStar, Chars isQuote One] s5
             = Some n5"
    by (rule matchHere_One_split)
  from matchHere_Plus_split [OF m5] obtain u2 s6 n6 where s5: "s5 = u2 @ s6"
    and u2: "list_all isNameChar u2" and n5: "n5 = length u2 + n6"
    and m6: "matchHere [Chars isPathChar LazyStar, Chars isQuote One] s6 = Some n6"
    by blast
  from matchHere_LazyStar_split [OF m6] obtain u3 s7 n7 where s6: "s6 = u3 @ s7"
    and u3: "list_all isPathChar u3" and n6: "n6 = length u3 + n7"
    and m7: "matchHere [Chars isQuote One] s7 = Some n7"
    by blast
  from m7 obtain q2 post n8 where s7: "s7 = q2 # post" and q2: "isQuote q2" and n7: "n7 = Suc n8"
    and m8: "matchHere [] post = Some n8"
    by (rule matchHere_One_split)
  from m8 have n8: "n8 = 0" by simp
  define body where "body = c2 # u1 @ c4 # c5 # u2 @ u3"
  have "s = q1 # body @ q2 # post"
    by (simp add: body_def s s1 s2 s3 s4 s5 s6 s7)
  moreover have "n = length body + 2"
    by (simp add: body_def n n1 n2 n3 n4 n5 n6 n7 n8)
  moreover have "list_all isPathChar body"
    using c2 c4 c5 u1 u2 u3
    by (auto simp: body_def lit_def list_all_iff isPathChar_cases)
  ultimately show ?thesis using q1 q2 by blast
qed

lemma exec_pathRegex:
  assumes "exec pathRegex content = Some (m, rest)"
  shows "\<exists>pre q1 q2. content = pre @ q1 # butlast (tl m) @ q2 # rest
           \<and> isQuote q1 \<and> isQuote q2 \<and> list_all isPathChar (butlast (tl m))"
proof -
  from assms obtain i n where sr: "search pathRegex content = Some (i, n)"
    and m: "m = take n (drop i content)" and rest: "rest = drop (i + n) content"
    by (auto simp: exec_def split: option.splits)
  from search_sound [OF sr] have i: "i \<le> length content"
    and mh: "matchHere pathRegex (drop i content) = Some n"
    by simp_all
  from matchHere_pathRegex [OF mh] obtain q1 body q2 post where
    d: "drop i content = q1 # body @ q2 # post" and n: "n = length body + 2"
    and q: "isQuote q1" "isQuote q2" and b: "list_all isPathChar body"
    by blast
  have m': "m = q1 # body @ [q2]" by (simp add: m d n)
  have "rest = drop n (drop i content)" by (simp add: rest add.commute)
  then have rest': "rest = post" by (simp add: d n)
  have "content = take i content @ drop i content" by simp
  then have "content = take i content @ q1 # body @ q2 # rest"
    by (simp add: d rest')
  moreover have "butlast (tl m) = body" by (simp add: m' butlast_append)
  ultimately show ?thesis using q b by metis
qed

lemma set_setAdd: "set (setAdd xs x) = insert x (set xs)"
  by (auto simp: setAdd_def)

lemma quoted_later:
  "quoted rest p \<Longrightarrow> content = pre @ rest \<Longrightarrow> quoted content p"
  unfolding quoted_def by (metis append.assoc)

lemma pathLoop_members:
  "p \<in> set (pathLoop content paths) \<Longrightarrow>
   p \<in> set paths \<or> (validPath p \<and> list_all isPathChar p \<and> quoted content p)"
proof (induction content paths rule: pathLoop.induct)
  case (1 content paths)
  show ?case
  proof (cases "exec pathRegex content")
    case None
    with "1.prems" show ?thesis by (simp add: pathLoop.simps)
  next
    case (Some mr)
    obtain m rest where mr: "mr = (m, rest)" by (cases mr)
    define path where "path = butlast (tl m)"
    from exec_pathRegex [OF Some [unfolded mr]] obtain pre q1 q2 where
      c: "content = pre @ q1 # path @ q2 # rest" and q: "isQuote q1" "isQuote q2"
      and pc: "list_all isPathChar path"
      unfolding path_def by blast
    have here: "quoted content path"
      unfolding quoted_def using c q by blast
    have later: "quoted content p" if "quoted rest p"
      using that
    proof (rule quoted_later)
      show "content = (pre @ q1 # path @ [q2]) @ rest" by (simp add: c)
    qed
    show ?thesis
    proof (cases "validPath path")
      case True
      then have vp: "validPath (butlast (tl m))" by (simp add: path_def)
      from "1.prems" Some mr vp
      have mem: "p \<in> set (pathLoop rest
                   (setAdd paths (replaceFirst wildcardRegex ''/*'' (butlast (tl m)))))"
        by (simp add: pathLoop.simps [of content])
      from "1.IH"(1) [OF Some mr [symmetric] refl vp refl mem]
      have "p \<in> set (setAdd paths path)
            \<or> (validPath p \<and> list_all isPathChar p \<and> quoted rest p)"
        by (simp add: path_def replaceFirst_wildcard_same)
      with True pc here later show ?thesis
        by (auto simp: set_setAdd)
    next
      case False
      then have vp: "\<not> validPath (butlast (tl m))" by (simp add: path_def)
      from "1.prems" Some mr vp
      have mem: "p \<in> set (pathLoop rest paths)"
        by (simp add: pathLoop.simps [of content])
      from "1.IH"(2) [OF Some mr [symmetric] refl vp mem]
      have "p \<in> set paths \<or> (validPath p \<and> list_all isPathChar p \<and> quoted rest p)" .
      with later show ?thesis by auto
    qed
  qed
qed

lemma isQuote_quoteChars: "isQuote c \<longleftrightarrow> c \<in> set quoteChars"
  by (auto simp: isQuote_def quoteChars_def)

lemma quoted_anyQuoted: "quoted content p \<Longrightarrow> anyQuoted content p"
  unfolding quoted_def anyQuoted_def quotedBy_def sublist_def isQuote_quoteChars
  by (metis append_Cons append_Nil append_assoc)

lemma sublist_single: "sublist [c] s \<longleftrightarrow> c \<in> set s"
  by (auto simp: sublist_def in_set_conv_decomp)

lemma test_paramNameRegex:
  assumes "test paramNameRegex p"
  shows "\<exists>pre l name post. p = pre @ ''/:'' @ l # name @ post \<and> isLetter l
           \<and> list_all isNameChar name"
proof -
  from assms obtain i n where sr: "search paramNameRegex p = Some (i, n)"
    by (auto simp: test_def)
  from search_sound [OF sr] have mh: "matchHere paramNameRegex (drop i p) = Some n"
    by simp
  from mh [unfolded paramNameRegex_def]
  obtain c1 s1 n1 where d: "drop i p = c1 # s1" and c1: "lit CHR ''/'' c1"
    and m1: "matchHere [Chars (lit CHR '':'') One, Chars isLetter One, Chars isNameChar Star] s1
             = Some n1"
    by (rule matchHere_One_split)
  from m1 obtain c2 s2 n2 where s1: "s1 = c2 # s2" and c2: "lit CHR '':'' c2"
    and m2: "matchHere [Chars isLetter One, Chars isNameChar Star] s2 = Some n2"
    by (rule matchHere_One_split)
  from m2 obtain l s3 n3 where s2: "s2 = l # s3" and l: "isLetter l"
    and m3: "matchHere [Chars isNameChar Star] s3 = Some n3"
    by (rule matchHere_One_split)
  from matchHere_Star_split [OF m3] obtain name post where s3: "s3 = name @ post"
    and nm: "list_all isNameChar name"
    by blast
  have "p = take i p @ drop i p" by simp
  then have "p = take i p @ ''/:'' @ l # name @ post"
    using c1 c2 by (simp add: d s1 s2 s3 lit_def)
  with l nm show ?thesis by blast
qed

lemma extractPaths_members:
  "p \<in> set (extractPaths content) \<Longrightarrow>
   validPath p \<and> list_all isPathChar p \<and> quoted content p"
  unfolding extractPaths_def by (drule pathLoop_members) simp

subsection \<open>The canonical order of query keys\<close>

lemma inject_zip: "inject i ks = zip ks (map placeholder [i..<i + length ks])"
proof (induction ks arbitrary: i)
  case Nil
  then show ?case by simp
next
  case (Cons k ks)
  have "[i..<i + length (k # ks)] = i # [Suc i..<Suc i + length ks]"
    using upt_conv_Cons [of i "i + length (k # ks)"] by simp
  with Cons [of "Suc i"] show ?case by simp
qed

lemma count_list_replicate: "count_list (replicate n a) b = (if a = b then n else 0)"
  by (induction n) auto

lemma count_concat_replicate:
  "distinct ks \<Longrightarrow>
   count_list (concat (map (\<lambda>k. replicate (f k) k) ks)) x = (if x \<in> set ks then f x else 0)"
  by (induction ks) (auto simp: count_list_0_iff count_list_replicate)

lemma sorted_concat_replicate:
  "sorted ks \<Longrightarrow> sorted (concat (map (\<lambda>k. replicate (f k) k) ks))"
  by (induction ks) (auto simp: sorted_append)

lemma concat_replicate_sort:
  fixes xs :: "'a::linorder list"
  assumes "distinct ks" and "set ks = set xs"
  shows "concat (map (\<lambda>k. replicate (count_list xs k) k) (sort ks)) = sort xs"
proof -
  have d: "distinct (sort ks)" using assms(1) by simp
  have "mset (concat (map (\<lambda>k. replicate (count_list xs k) k) (sort ks))) = mset xs"
  proof (rule multiset_eqI)
    fix x
    show "count (mset (concat (map (\<lambda>k. replicate (count_list xs k) k) (sort ks)))) x
          = count (mset xs) x"
      using assms(2) by (simp add: count_mset count_concat_replicate [OF d] count_list_0_iff)
  qed
  moreover have "sorted (concat (map (\<lambda>k. replicate (count_list xs k) k) (sort ks)))"
    by (rule sorted_concat_replicate) simp
  ultimately show ?thesis by (simp add: properties_for_sort)
qed

lemma countKeys_foldl: "countKeys entries = foldl countStep [] entries"
  by (simp add: countKeys_def countStep_def [abs_def] case_prod_unfold)

lemma proto_in_names: "''__proto__'' \<in> set objectPrototypeNames"
  by (simp add: objectPrototypeNames_def)

lemma countStep_update:
  assumes "counting obj" and "fst e \<notin> set objectPrototypeNames"
  shows "countStep obj e = AList.update (fst e) (Number (numOf obj (fst e) + 1)) obj"
proof -
  from assms(2) proto_in_names have np: "fst e \<noteq> ''__proto__''" by auto
  have "orZeroPlusOne (getProp obj (fst e)) = Number (numOf obj (fst e) + 1)"
  proof (cases "map_of obj (fst e)")
    case None
    with assms(2) show ?thesis by (simp add: getProp_def numOf_def)
  next
    case (Some v)
    with assms(1) obtain n where "v = Number n" unfolding counting_def by blast
    with Some show ?thesis by (simp add: getProp_def numOf_def)
  qed
  with np show ?thesis by (simp add: countStep_def setProp_def)
qed

lemma countStep_counting:
  assumes "counting obj" and "fst e \<notin> set objectPrototypeNames"
  shows "counting (countStep obj e)"
    and "fst ` set (countStep obj e) = insert (fst e) (fst ` set obj)"
    and "numOf (countStep obj e) k = numOf obj k + (if k = fst e then 1 else 0)"
proof -
  note u = countStep_update [OF assms]
  show "fst ` set (countStep obj e) = insert (fst e) (fst ` set obj)"
    by (simp add: u dom_update)
  with assms show "counting (countStep obj e)"
    by (auto simp: counting_def u distinct_update update_conv')
  show "numOf (countStep obj e) k = numOf obj k + (if k = fst e then 1 else 0)"
    by (simp add: u numOf_def update_conv')
qed

lemma foldl_countStep:
  "counting obj \<Longrightarrow> fst ` set entries \<inter> set objectPrototypeNames = {} \<Longrightarrow>
   counting (foldl countStep obj entries) \<and>
   fst ` set (foldl countStep obj entries) = fst ` set obj \<union> fst ` set entries \<and>
   (\<forall>k. numOf (foldl countStep obj entries) k = numOf obj k + count_list (map fst entries) k)"
proof (induction entries arbitrary: obj)
  case Nil
  then show ?case by simp
next
  case (Cons e entries)
  from Cons.prems(2) have e: "fst e \<notin> set objectPrototypeNames"
    and rest: "fst ` set entries \<inter> set objectPrototypeNames = {}"
    by auto
  note st = countStep_counting [OF Cons.prems(1) e]
  from Cons.IH [OF st(1) rest] show ?case
    by (auto simp: st(2) st(3))
qed

lemma counting_empty: "counting []"
  by (simp add: counting_def)

lemma keysWithDupes_sorted:
  assumes "fst ` set entries \<inter> set objectPrototypeNames = {}"
  shows "keysWithDupes entries = sort (map fst entries)"
proof -
  define kc where "kc = countKeys entries"
  from foldl_countStep [OF counting_empty assms]
  have c: "counting kc" and keys: "fst ` set kc = fst ` set entries"
    and num: "\<And>k. numOf kc k = count_list (map fst entries) k"
    by (simp_all add: kc_def countKeys_foldl numOf_def)
  have it: "iterations (getProp kc k) = count_list (map fst entries) k" if "k \<in> fst ` set kc" for k
  proof -
    from that obtain v where v: "map_of kc k = Some v"
      by (metis image_iff map_of_eq_None_iff not_Some_eq)
    with c obtain n where "v = Number n" unfolding counting_def by blast
    with v have "iterations (getProp kc k) = numOf kc k"
      by (simp add: getProp_def numOf_def)
    then show ?thesis by (simp add: num)
  qed
  have "keysWithDupes entries =
        concat (map (\<lambda>k. replicate (iterations (getProp kc k)) k) (sort (map fst kc)))"
    by (simp add: keysWithDupes_def kc_def Let_def)
  also have "map (\<lambda>k. replicate (iterations (getProp kc k)) k) (sort (map fst kc)) =
             map (\<lambda>k. replicate (count_list (map fst entries) k) k) (sort (map fst kc))"
    by (rule map_cong) (auto simp: it)
  also have "concat (map (\<lambda>k. replicate (count_list (map fst entries) k) k) (sort (map fst kc)))
             = sort (map fst entries)"
  proof (rule concat_replicate_sort)
    from c show "distinct (map fst kc)" by (simp add: counting_def)
    from keys show "set (map fst kc) = set (map fst entries)" by simp
  qed
  finally show ?thesis .
qed

lemma canonParams_sorted:
  assumes "fst ` set entries \<inter> set objectPrototypeNames = {}"
  shows "canonParams entries =
         zip (sort (map fst entries)) (map placeholder [0..<length entries])"
  by (simp add: canonParams_def keysWithDupes_sorted [OF assms] inject_zip)

subsection \<open>The scheme pattern and the lines passed over\<close>

lemma upper_letters:
  "char_of (72::nat) = CHR ''H''" "char_of (84::nat) = CHR ''T''"
  "char_of (80::nat) = CHR ''P''" "char_of (83::nat) = CHR ''S''"
  by code_simp+

lemma sameLetter_simps:
  "sameLetter c (CHR ''h'') \<longleftrightarrow> litI CHR ''h'' CHR ''H'' c"
  "sameLetter c (CHR ''t'') \<longleftrightarrow> litI CHR ''t'' CHR ''T'' c"
  "sameLetter c (CHR ''p'') \<longleftrightarrow> litI CHR ''p'' CHR ''P'' c"
  "sameLetter c (CHR ''s'') \<longleftrightarrow> litI CHR ''s'' CHR ''S'' c"
  "sameLetter c (CHR '':'') \<longleftrightarrow> lit CHR '':'' c"
  "sameLetter c (CHR ''/'') \<longleftrightarrow> lit CHR ''/'' c"
  by (auto simp: sameLetter_def litI_def lit_def isLower_def upper_letters)

lemma matches_One:
  "matchHere (Chars p One # r) s \<noteq> None \<longleftrightarrow>
   (\<exists>c cs. s = c # cs \<and> p c \<and> matchHere r cs \<noteq> None)"
  by (cases s) auto

lemma matches_Opt:
  "matchHere (Chars p Opt # r) s \<noteq> None \<longleftrightarrow>
   (\<exists>c cs. s = c # cs \<and> p c \<and> matchHere r cs \<noteq> None) \<or> matchHere r s \<noteq> None"
  by (cases s) (auto split: option.splits)

lemma list_all2_take_Cons:
  "list_all2 P (take (Suc n) s) (l # ls) \<longleftrightarrow>
   (\<exists>c cs. s = c # cs \<and> P c l \<and> list_all2 P (take n cs) ls)"
  by (cases s) auto

lemma testAtStart_schemeRegex: "testAtStart schemeRegex t = hasHttpScheme t"
proof -
  have seven: "7 = Suc (Suc (Suc (Suc (Suc (Suc (Suc 0))))))"
    and eight: "8 = Suc (Suc (Suc (Suc (Suc (Suc (Suc (Suc 0)))))))"
    by simp_all
  show ?thesis
    unfolding testAtStart_def schemeRegex_def hasHttpScheme_def eqIgnoreCase_def seven eight
    by (simp only: matches_One matches_Opt list_all2_take_Cons sameLetter_simps
        list_all2_Nil2 take_eq_Nil matchHere.simps(1)) auto
qed

lemma processLine_skipped: "skippedLine env line \<Longrightarrow> processLine env line = None"
  unfolding skippedLine_def processLine_def Let_def
  by (auto simp: testAtStart_schemeRegex str_includes_def sublist_single split: sum.splits)

lemma processUrlList_console:
  "console (processUrlList env f) = [] \<or>
   console (processUrlList env f) = [ErrNoUrlsFile f] \<or>
   console (processUrlList env f) = [LogNoUrls] \<or>
   (\<exists>n. console (processUrlList env f) = [LogCreatedWaymore n])"
  by (auto simp: processUrlList_def Let_def split: sum.splits option.splits)

subsection \<open>Arguments, the set of all paths, and the files written\<close>

lemma parseArgsFrom_wellSet: "wellSet cfg \<Longrightarrow> wellSet (parseArgsFrom cfg args)"
  by (induction cfg args rule: parseArgsFrom.induct) (auto simp: wellSet_def)

lemma parseArgs_wellSet: "wellSet (parseArgs args)"
  unfolding parseArgs_def by (rule parseArgsFrom_wellSet) (simp add: wellSet_def)







subsection \<open>Line feeds in templates and URLs\<close>










subsection \<open>Errors that leave the file collector\<close>

lemma getAllJsFiles_readdir_throws:
  "existsSync env dir \<Longrightarrow> readdirSync env dir = Inl e \<Longrightarrow>
   getAllJsFiles (Suc fuel) env dir = Some ([], Inl e)"
  by simp

lemma getAllJsFiles_stat_throws:
  "existsSync env dir \<Longrightarrow> readdirSync env dir = Inr (item # rest) \<Longrightarrow>
   statSync env (pathJoin env dir item) = Inl e \<Longrightarrow>
   getAllJsFiles (Suc fuel) env dir = Some ([], Inl e)"
  by simp


section \<open>The claims\<close>

text \<open>
  \<^bold>\<open>Claim C1.\<close> For every template and every domain, \<^verbatim>\<open>replacePaths\<close> replaces the
  \<open>N\<close>-th parameter (counting from 0, left to right), that is the \<open>N\<close>-th \<^verbatim>\<open>:\<close> followed by
  one or more characters of \<^verbatim>\<open>[a-zA-Z0-9_]\<close>, by \<^verbatim>\<open>magun4\<close> when \<open>N = 0\<close> and by
  \<^verbatim>\<open>magun4_N\<close>, with \<open>N\<close> in decimal, otherwise (\<open>magunText N\<close>): a template with \<open>k\<close>
  parameters, \<open>l0 @ segments segs\<close> with \<open>k = length segs\<close>, becomes \<open>l0 @ filled 0 segs\<close>,
  whatever the names are, and the ''https://example.com/magun4/magun4_1/magun4_2/magun4_3/magun4_4/magun4_5/magun4_6/magun4_7/magun4_8/magun4_9/magun4_10/magun4_11'' is made of that. The count starts at 0 in every
  call: the statement holds for each call by itself, and \<open>replacePaths\<close> has no other
  argument than the template and the domain. Every string is such a template (lemma
  \<open>template_exists\<close>).
\<close>

theorem replacePaths_placeholders:
  assumes "paramFree l0" and "wellFormed segs"
  shows "replaceParams (l0 @ segments segs) = l0 @ filled 0 segs \<and>
         replacePaths (l0 @ segments segs) d = urlOf d (l0 @ filled 0 segs)"
  using replaceParams_template [OF assms] by (simp add: replacePaths_shape)

theorem replacePaths_placeholders_witness:
  "paramFree ''/'' \<and>
   wellFormed
     [(''a'', ''/''), (''b'', ''/''), (''c'', ''/''), (''d'', ''/''), (''e'', ''/''), (''f'', ''/''),
      (''g'', ''/''), (''h'', ''/''), (''i'', ''/''), (''j'', ''/''), (''k'', ''/''), (''l'', [])] \<and>
   replaceParams ''/:a/:b/:c/:d/:e/:f/:g/:h/:i/:j/:k/:l'' =
     ''/magun4/magun4_1/magun4_2/magun4_3/magun4_4/magun4_5/magun4_6/magun4_7/magun4_8/magun4_9/magun4_10/magun4_11'' \<and>
   replacePaths ''/:a/:b/:c/:d/:e/:f/:g/:h/:i/:j/:k/:l'' ''https://example.com/'' =
     ''https://example.com/magun4/magun4_1/magun4_2/magun4_3/magun4_4/magun4_5/magun4_6/magun4_7/magun4_8/magun4_9/magun4_10/magun4_11''"
proof -
  have h1: "paramFree ''/''" by code_simp
  have h2: "wellFormed
     [(''a'', ''/''), (''b'', ''/''), (''c'', ''/''), (''d'', ''/''), (''e'', ''/''), (''f'', ''/''),
      (''g'', ''/''), (''h'', ''/''), (''i'', ''/''), (''j'', ''/''), (''k'', ''/''), (''l'', [])]"
    by code_simp
  have t: "''/'' @ segments
     [(''a'', ''/''), (''b'', ''/''), (''c'', ''/''), (''d'', ''/''), (''e'', ''/''), (''f'', ''/''),
      (''g'', ''/''), (''h'', ''/''), (''i'', ''/''), (''j'', ''/''), (''k'', ''/''), (''l'', [])] =
     ''/:a/:b/:c/:d/:e/:f/:g/:h/:i/:j/:k/:l''"
    by simp
  have f: "''/'' @ filled 0
     [(''a'', ''/''), (''b'', ''/''), (''c'', ''/''), (''d'', ''/''), (''e'', ''/''), (''f'', ''/''),
      (''g'', ''/''), (''h'', ''/''), (''i'', ''/''), (''j'', ''/''), (''k'', ''/''), (''l'', [])] =
     ''/magun4/magun4_1/magun4_2/magun4_3/magun4_4/magun4_5/magun4_6/magun4_7/magun4_8/magun4_9/magun4_10/magun4_11''"
    by code_simp
  have u: "urlOf ''https://example.com/''
     ''/magun4/magun4_1/magun4_2/magun4_3/magun4_4/magun4_5/magun4_6/magun4_7/magun4_8/magun4_9/magun4_10/magun4_11'' =
     ''https://example.com/magun4/magun4_1/magun4_2/magun4_3/magun4_4/magun4_5/magun4_6/magun4_7/magun4_8/magun4_9/magun4_10/magun4_11''"
    by code_simp
  from replacePaths_placeholders [OF h1 h2, of "''https://example.com/''"] h1 h2
  show ?thesis unfolding t f u by blast
qed

text \<open>
  \<^bold>\<open>Claim C2\<close> says that the output query string has the keys of the input in
  lexicographic order, each as often as it occurs in the input, with the placeholders
  \<^verbatim>\<open>magun4\<close>, \<^verbatim>\<open>magun4_1\<close>, ... given along this sequence. The program does so when no key
  is the name of a member of \<^verbatim>\<open>Object.prototype\<close> (lemma \<open>canonParams_sorted\<close>). It counts
  the keys in an object literal, though, and for a key such as \<^verbatim>\<open>constructor\<close> the first
  read \<^verbatim>\<open>keyCounts[key]\<close> gives the inherited function, \<^verbatim>\<open>(... || 0) + 1\<close> a string, and
  the loop \<^verbatim>\<open>i < keyCounts[k]\<close> no round: the key is left out. The URL
  \<^verbatim>\<open>https://x.com/a?constructor=1\<close> becomes \<^verbatim>\<open>https://x.com/a\<close>, and in
  \<^verbatim>\<open>b=1&constructor=2&a=3\<close> the key \<^verbatim>\<open>constructor\<close> is lost.
\<close>

theorem canonParams_prototype_key:
  "canonParams [(''constructor'', ''1'')] = [] \<and>
   processLine scenarioPlatform ''https://x.com/a?constructor=1'' = Some ''https://x.com/a'' \<and>
   canonParams [(''b'', ''1''), (''constructor'', ''2''), (''a'', ''3'')] =
     [(''a'', ''magun4''), (''b'', ''magun4_1'')]"
  by code_simp

text \<open>
  \<^bold>\<open>Claim C3.\<close> For every input text, every string that \<^verbatim>\<open>extractPaths\<close> returns starts with
  \<^verbatim>\<open>/\<close>, contains \<^verbatim>\<open>/:\<close>, consists of letters, digits, \<^verbatim>\<open>-\<close>, \<^verbatim>\<open>_\<close>, \<^verbatim>\<open>/\<close>, \<^verbatim>\<open>*\<close>
  and \<^verbatim>\<open>:\<close> only, contains no space, parenthesis, bracket, backslash or pipe and not the
  sequence \<^verbatim>\<open>?!\<close>, is longer than 2 and shorter than 200 characters, and contains a
  \<^verbatim>\<open>/:\<close> followed by a letter and then by zero or more letters, digits, \<^verbatim>\<open>-\<close> or \<^verbatim>\<open>_\<close>.
\<close>

theorem extractPaths_valid:
  assumes "p \<in> set (extractPaths content)"
  shows "startsWith p ''/'' \<and> str_includes p ''/:'' \<and>
         (\<forall>c\<in>set p. isLetter c \<or> isDigit c \<or> c = CHR ''-'' \<or> c = CHR ''_''
                      \<or> c = CHR ''/'' \<or> c = CHR ''*'' \<or> c = CHR '':'') \<and>
         CHR '' '' \<notin> set p \<and> CHR ''('' \<notin> set p \<and> CHR '')'' \<notin> set p \<and>
         CHR ''['' \<notin> set p \<and> CHR '']'' \<notin> set p \<and> CHR 0x5C \<notin> set p \<and>
         CHR ''|'' \<notin> set p \<and> \<not> str_includes p ''?!'' \<and>
         2 < length p \<and> length p < 200 \<and>
         (\<exists>pre l name post. p = pre @ ''/:'' @ l # name @ post \<and> isLetter l
            \<and> list_all isNameChar name)"
proof -
  from extractPaths_members [OF assms] have v: "validPath p" and pc: "list_all isPathChar p"
    by simp_all
  from pc have chars: "\<forall>c\<in>set p. isLetter c \<or> isDigit c \<or> c = CHR ''-'' \<or> c = CHR ''_''
                      \<or> c = CHR ''/'' \<or> c = CHR ''*'' \<or> c = CHR '':''"
    by (auto simp: list_all_iff isPathChar_def isSegmentChar_def isNameChar_def)
  from v have t: "test paramNameRegex p" by (simp add: validPath_def)
  from v have basic: "startsWith p ''/''" "str_includes p ''/:''" "\<not> str_includes p ''?!''"
      "2 < length p" "length p < 200"
    by (simp_all add: validPath_def)
  from v have none: "CHR '' '' \<notin> set p" "CHR ''('' \<notin> set p" "CHR '')'' \<notin> set p"
      "CHR ''['' \<notin> set p" "CHR '']'' \<notin> set p" "CHR 0x5C \<notin> set p" "CHR ''|'' \<notin> set p"
    by (simp_all add: validPath_def str_includes_def sublist_single)
  from basic none chars test_paramNameRegex [OF t] show ?thesis by blast
qed

theorem extractPaths_valid_witness:
  "''/download/:id'' \<in> set (extractPaths (''app.get('' @ [CHR 0x27] @ ''/download/:id''
                                            @ [CHR 0x27] @ '', handler);'')) \<and>
   startsWith ''/download/:id'' ''/'' \<and> str_includes ''/download/:id'' ''/:'' \<and>
   2 < length ''/download/:id'' \<and> length ''/download/:id'' < 200"
proof -
  have h: "''/download/:id'' \<in> set (extractPaths (''app.get('' @ [CHR 0x27] @ ''/download/:id''
                                            @ [CHR 0x27] @ '', handler);''))"
    by code_simp
  from extractPaths_valid [OF h] h show ?thesis by blast
qed

text \<open>
  \<^bold>\<open>Claim C4\<close> says that the output is the domain without a trailing \<^verbatim>\<open>/\<close>, followed by the
  path without a trailing \<^verbatim>\<open>/*\<close> (lemma \<open>replacePaths_shape\<close> proves this much), and that
  exactly one \<^verbatim>\<open>/\<close> stands at the join also for a domain that ends in more than one
  slash. Line 116 removes one slash: for the domain \<^verbatim>\<open>https://x.com//\<close> the URL has two
  slashes at the join.
\<close>

theorem replacePaths_double_slash_domain:
  "replacePaths ''/a/:b'' ''https://x.com//'' = ''https://x.com//a/magun4''"
  by code_simp

text \<open>
  \<^bold>\<open>Claim C5\<close> says that every extracted path stands between two quote characters that are
  the same, and that a candidate between two different quote characters is never
  extracted. The pattern of line 63 has the class of the three quote characters at
  either end and nothing that ties the two together: the text \<^verbatim>\<open>'/a/:b"\<close>, a single
  quote before the path and a double quote after it, gives the path \<^verbatim>\<open>/a/:b\<close>, which
  occurs nowhere in that text between two equal quote characters.
\<close>

theorem extractPaths_mixed_quotes:
  "''/a/:b'' \<in> set (extractPaths ([CHR 0x27] @ ''/a/:b'' @ [CHR 0x22])) \<and>
   \<not> sameQuoted ([CHR 0x27] @ ''/a/:b'' @ [CHR 0x22]) ''/a/:b''"
  by code_simp

text \<open>
  \<^bold>\<open>Claim C5, amended.\<close> Every extracted path occurs in the input right after a quote
  character and right before a quote character, each of them a single quote, a double
  quote or a backtick; the two need not be the same.
\<close>

theorem extractPaths_quoted:
  assumes "p \<in> set (extractPaths content)"
  shows "anyQuoted content p"
  using extractPaths_members [OF assms] by (simp add: quoted_anyQuoted)

theorem extractPaths_quoted_witness:
  "''/a/:b'' \<in> set (extractPaths ([CHR 0x27] @ ''/a/:b'' @ [CHR 0x22])) \<and>
   anyQuoted ([CHR 0x27] @ ''/a/:b'' @ [CHR 0x22]) ''/a/:b''"
proof -
  have h: "''/a/:b'' \<in> set (extractPaths ([CHR 0x27] @ ''/a/:b'' @ [CHR 0x22]))"
    by code_simp
  from extractPaths_quoted [OF h] h show ?thesis by blast
qed






text \<open>
  \<^bold>\<open>Claim C7.\<close> In list mode a line that, trimmed, is blank, or does not start with
  \<^verbatim>\<open>http://\<close> or \<^verbatim>\<open>https://\<close> in any case of the letters, or has no \<^verbatim>\<open>?\<close>, or does not parse,
  or parses to a URL without query entries, adds nothing to the output, and the lines
  before and after it give the output they give without it. The loop over the lines
  prints nothing: all that \<^verbatim>\<open>processUrlList\<close> prints is one message about the file or about
  the whole output.
\<close>

theorem skipped_lines:
  assumes "skippedLine env line"
  shows "processLine env line = None \<and>
         collectUrls env (before @ line # after) = collectUrls env (before @ after) \<and>
         set (console (processUrlList env f))
           \<subseteq> insert (ErrNoUrlsFile f) (insert LogNoUrls (range LogCreatedWaymore))"
proof -
  have "collectUrls env (before @ line # after) = collectUrls env (before @ after)"
    using processLine_skipped [OF assms] by (simp add: collectUrls_def)
  moreover have "set (console (processUrlList env f))
           \<subseteq> insert (ErrNoUrlsFile f) (insert LogNoUrls (range LogCreatedWaymore))"
    using processUrlList_console [of env f] by auto
  ultimately show ?thesis
    using processLine_skipped [OF assms] by simp
qed

theorem skipped_lines_witness:
  "skippedLine scenarioPlatform ''not-a-url'' \<and>
   processLine scenarioPlatform ''not-a-url'' = None \<and>
   collectUrls scenarioPlatform ([''https://x.com/a?b=1&c=2''] @ ''not-a-url'' # [''https://x.com/path''])
     = [''https://x.com/a?b=magun4&c=magun4_1'']"
proof -
  have h: "skippedLine scenarioPlatform ''not-a-url''" by code_simp
  have e: "collectUrls scenarioPlatform ([''https://x.com/a?b=1&c=2''] @ [''https://x.com/path''])
           = [''https://x.com/a?b=magun4&c=magun4_1'']"
    by code_simp
  from skipped_lines [OF h, of "[''https://x.com/a?b=1&c=2'']" "[''https://x.com/path'']"] h e
  show ?thesis by simp
qed

text \<open>
  \<^bold>\<open>Claim C8.\<close> When the directory given to extraction mode does not exist,
  \<^verbatim>\<open>getAllJsFiles\<close> prints its diagnostic and returns no file, whatever the fuel; \<^verbatim>\<open>main\<close>
  then reports that no paths were found, writes no file and returns, so the process
  exits with code 0.
\<close>

theorem missing_directory:
  assumes "\<not> existsSync env dir"
    and "parseArgs argv = \<lparr>jsDir = Some dir, domain = Some d, urlsFile = None\<rparr>"
  shows "getAllJsFiles (Suc fuel) env dir = Some ([ErrNoDirectory dir], Inr []) \<and>
         main (Suc fuel) env argv =
           Some \<lparr>console = [LogScanning dir, LogDomain d, ErrNoDirectory dir,
                             LogFoundFiles 0, LogNoPaths],
                  written = [], completion = Returned\<rparr> \<and>
         map_option (\<lambda>out. exitCode (completion out)) (main (Suc fuel) env argv) = Some 0"
proof -
  from parseArgs_wellSet [of argv] assms(2) have ne: "dir \<noteq> []" "d \<noteq> []"
    by (auto simp: wellSet_def)
  from assms(1) have g: "getAllJsFiles (Suc fuel) env dir = Some ([ErrNoDirectory dir], Inr [])"
    by simp
  have "main (Suc fuel) env argv =
           Some \<lparr>console = [LogScanning dir, LogDomain d, ErrNoDirectory dir,
                             LogFoundFiles 0, LogNoPaths],
                  written = [], completion = Returned\<rparr>"
    unfolding main_def assms(2) Let_def using ne g by simp
  with g show ?thesis by simp
qed

theorem missing_directory_witness:
  "\<not> existsSync scenarioPlatform ''missing'' \<and>
   parseArgs [''-js'', ''missing'', ''-d'', ''https://example.com''] =
     \<lparr>jsDir = Some ''missing'', domain = Some ''https://example.com'', urlsFile = None\<rparr> \<and>
   main (Suc 0) scenarioPlatform [''-js'', ''missing'', ''-d'', ''https://example.com''] =
     Some \<lparr>console = [LogScanning ''missing'', LogDomain ''https://example.com'',
                       ErrNoDirectory ''missing'', LogFoundFiles 0, LogNoPaths],
            written = [], completion = Returned\<rparr>"
proof -
  have h1: "\<not> existsSync scenarioPlatform ''missing''" by code_simp
  have h2: "parseArgs [''-js'', ''missing'', ''-d'', ''https://example.com''] =
     \<lparr>jsDir = Some ''missing'', domain = Some ''https://example.com'', urlsFile = None\<rparr>"
    by code_simp
  from missing_directory [OF h1 h2, of 0] h1 h2 show ?thesis by blast
qed

text \<open>
  \<^bold>\<open>Claim C9\<close> says that \<^verbatim>\<open>getAllJsFiles\<close> cannot throw on an existing directory: every
  file-system call is guarded by a check or its failure is caught. \<^verbatim>\<open>fs.statSync\<close> on
  line 45 is neither. In the directory \<^verbatim>\<open>proj\<close> of \<open>scenarioPlatform\<close>, which exists and
  holds a link to a missing file, \<^verbatim>\<open>statSync\<close> throws, the error leaves \<^verbatim>\<open>getAllJsFiles\<close>,
  and \<^verbatim>\<open>main\<close>, which calls it outside of any \<^verbatim>\<open>try\<close>, ends with the error uncaught.
  (Lemmas \<open>getAllJsFiles_stat_throws\<close> and \<open>getAllJsFiles_readdir_throws\<close>: on every
  platform an error of \<^verbatim>\<open>statSync\<close> on the first entry, or of \<^verbatim>\<open>readdirSync\<close>, leaves the
  function.)
\<close>

theorem getAllJsFiles_dangling_link:
  "existsSync scenarioPlatform ''proj'' \<and>
   getAllJsFiles (Suc fuel) scenarioPlatform ''proj'' = Some ([], Inl (Error ''ENOENT'')) \<and>
   main (Suc fuel) scenarioPlatform [''-js'', ''proj'', ''-d'', ''https://example.com''] =
     Some \<lparr>console = [LogScanning ''proj'', LogDomain ''https://example.com''],
            written = [], completion = Thrown (Error ''ENOENT'')\<rparr>"
proof -
  have e: "existsSync scenarioPlatform ''proj''" by code_simp
  have g: "getAllJsFiles (Suc fuel) scenarioPlatform ''proj'' = Some ([], Inl (Error ''ENOENT''))"
    by (simp add: scenarioPlatform_def)
  have p: "parseArgs [''-js'', ''proj'', ''-d'', ''https://example.com''] =
     \<lparr>jsDir = Some ''proj'', domain = Some ''https://example.com'', urlsFile = None\<rparr>"
    by code_simp
  have "main (Suc fuel) scenarioPlatform [''-js'', ''proj'', ''-d'', ''https://example.com''] =
     Some \<lparr>console = [LogScanning ''proj'', LogDomain ''https://example.com''],
            written = [], completion = Thrown (Error ''ENOENT'')\<rparr>"
    unfolding main_def p Let_def using g by simp
  with e g show ?thesis by simp
qed

theorem getAllJsFiles_dangling_link_witness:
  "existsSync scenarioPlatform ''proj'' \<and>
   getAllJsFiles (Suc 0) scenarioPlatform ''proj'' = Some ([], Inl (Error ''ENOENT'')) \<and>
   main (Suc 0) scenarioPlatform [''-js'', ''proj'', ''-d'', ''https://example.com''] =
     Some \<lparr>console = [LogScanning ''proj'', LogDomain ''https://example.com''],
            written = [], completion = Thrown (Error ''ENOENT'')\<rparr>"
  using getAllJsFiles_dangling_link [of 0] .

text \<open>
  \<^bold>\<open>Claim C10.\<close> In a template with a parameter whose name has a hyphen, such as
  \<^verbatim>\<open>/x/:user-id\<close> (which the extractor accepts), \<^verbatim>\<open>replacePaths\<close> replaces the \<^verbatim>\<open>:\<close> and the
  longest run of characters of \<^verbatim>\<open>[a-zA-Z0-9_]\<close> after it only: in the generated URL the
  hyphen and the text \<open>t\<close> that follows it, up to the next parameter (the rest of the name
  and whatever text comes after it), stand as they are in the template, wherever the
  parameter stands: after \<open>length segs\<close> earlier parameters and before any further
  parameters \<open>segs2\<close>.
\<close>

theorem replacePaths_hyphen:
  assumes "paramFree l0" and "wellFormed segs"
    and "isParamName name" and "paramFree t" and "wellFormed segs2"
  shows "replaceParams
           (l0 @ segments segs @ CHR '':'' # name @ CHR ''-'' # t @ segments segs2) =
           l0 @ filled 0 segs @ magunText (length segs) @ CHR ''-'' # t
           @ filled (Suc (length segs)) segs2
         \<and> replacePaths
             (l0 @ segments segs @ CHR '':'' # name @ CHR ''-'' # t @ segments segs2) d =
             urlOf d (l0 @ filled 0 segs @ magunText (length segs) @ CHR ''-'' # t
                      @ filled (Suc (length segs)) segs2)"
proof -
  define whole where "whole = segs @ (name, CHR ''-'' # t) # segs2"
  have "isLiteral (CHR ''-'' # t)"
    using assms(4) by (simp add: isLiteral_def paramFree_hyphen startsName_def not_isIdent_hyphen)
  with assms(2,3,5) have wf: "wellFormed whole"
    by (simp add: whole_def wellFormed_def)
  have sg: "segments whole =
            segments segs @ CHR '':'' # name @ CHR ''-'' # t @ segments segs2"
    by (simp add: whole_def segments_append)
  have fl: "filled 0 whole =
            filled 0 segs @ magunText (length segs) @ CHR ''-'' # t
            @ filled (Suc (length segs)) segs2"
    by (simp add: whole_def filled_append)
  from replaceParams_template [OF assms(1) wf]
  have "replaceParams
           (l0 @ segments segs @ CHR '':'' # name @ CHR ''-'' # t @ segments segs2) =
           l0 @ filled 0 segs @ magunText (length segs) @ CHR ''-'' # t
           @ filled (Suc (length segs)) segs2"
    by (simp add: sg fl)
  then show ?thesis by (simp add: replacePaths_shape)
qed

theorem replacePaths_hyphen_witness:
  "paramFree ''/a/'' \<and> wellFormed [(''b'', ''/x/'')] \<and> isParamName ''user'' \<and>
   paramFree ''id/profile/*'' \<and> wellFormed [] \<and>
   extractPaths ([CHR 0x27] @ ''/a/:b/x/:user-id/profile/*'' @ [CHR 0x27]) =
     [''/a/:b/x/:user-id/profile/*''] \<and>
   replacePaths ''/a/:b/x/:user-id/profile/*'' ''https://example.com'' =
     ''https://example.com/a/magun4/x/magun4_1-id/profile'' \<and>
   extractPaths ([CHR 0x27] @ ''/x/:user-id'' @ [CHR 0x27]) = [''/x/:user-id''] \<and>
   replacePaths ''/x/:user-id'' ''https://example.com'' = ''https://example.com/x/magun4-id''"
proof -
  have h1: "paramFree ''/a/''" by code_simp
  have h2: "wellFormed [(''b'', ''/x/'')]" by code_simp
  have h3: "isParamName ''user''" by code_simp
  have h4: "paramFree ''id/profile/*''" by code_simp
  have h5: "wellFormed []" by code_simp
  have e1: "extractPaths ([CHR 0x27] @ ''/a/:b/x/:user-id/profile/*'' @ [CHR 0x27]) =
     [''/a/:b/x/:user-id/profile/*'']"
    by code_simp
  have e2: "extractPaths ([CHR 0x27] @ ''/x/:user-id'' @ [CHR 0x27]) = [''/x/:user-id'']"
    by code_simp
  have t: "''/a/'' @ segments [(''b'', ''/x/'')] @ CHR '':'' # ''user'' @ CHR ''-'' #
             ''id/profile/*'' @ segments [] = ''/a/:b/x/:user-id/profile/*''"
    by simp
  have u: "urlOf ''https://example.com''
             (''/a/'' @ filled 0 [(''b'', ''/x/'')]
              @ magunText (length [(''b'', ''/x/'')]) @ CHR ''-'' # ''id/profile/*''
              @ filled (Suc (length [(''b'', ''/x/'')])) []) =
           ''https://example.com/a/magun4/x/magun4_1-id/profile''"
    by code_simp
  from replacePaths_hyphen [OF h1 h2 h3 h4 h5, of "''https://example.com''"]
  have r1: "replacePaths ''/a/:b/x/:user-id/profile/*'' ''https://example.com'' =
     ''https://example.com/a/magun4/x/magun4_1-id/profile''"
    unfolding t u by blast
  have r2: "replacePaths ''/x/:user-id'' ''https://example.com'' =
     ''https://example.com/x/magun4-id''"
    by code_simp
  from h1 h2 h3 h4 h5 e1 e2 r1 r2 show ?thesis by blast
qed

end
